theory Spec2Isabelle
  imports Main
begin

section \<open>The utility helpers of \<^verbatim>\<open>src/common/Common.ts\<close>\<close>

text \<open>
  The theory embeds the classes \<^verbatim>\<open>MapUtils\<close>, \<^verbatim>\<open>CommandLineUtils\<close> and
  \<^verbatim>\<open>Version\<close> of \<^verbatim>\<open>Common.ts\<close>, together with the JavaScript built-ins they
  call.

  Conventions of the embedding:
  \<^item> a JavaScript string is a \<open>string\<close>; every \<open>char\<close> stands for one UTF-16 code
    unit in the range 0 to 255 (Latin-1), so the strings of the model are the
    JavaScript strings without a code unit above 255;
  \<^item> a JavaScript number is an IEEE double. The model has the doubles whose value is an
    integer (\<open>Num n\<close>), the two infinities and \<open>NaN\<close>; every arithmetic result is
    rounded to the nearest double (ties to even) by \<open>toDouble\<close>, and becomes an
    infinity beyond the range of the doubles. Doubles with a fractional part are
    outside the model (\<^verbatim>\<open>Version.from\<close> never produces one), and the two zeros of
    JavaScript are one value \<open>Num 0\<close>: no operation modelled here tells them apart;
  \<^item> \<^verbatim>\<open>throw\<close> is the left injection of a sum, a normal return the right one.
\<close>

subsection \<open>JavaScript built-ins\<close>

datatype error = Error string | TypeError

datatype number = NaN | Num int | PosInfinity | NegInfinity

text \<open>
  The number of binary digits of a positive integer, and the double nearest to an
  integer: an integer below \<open>2 ^ 53\<close> in absolute value is a double; a larger one keeps
  its 53 leading binary digits, rounded to nearest with ties to the even significand,
  and overflows to an infinity when the rounded value reaches \<open>2 ^ 1024\<close>.
  A value \<open>Num n\<close> stands for a double when \<open>toDouble n = Num n\<close>; every number that
  the operations below return is of this kind.
\<close>

function bitLength :: "int \<Rightarrow> nat" where
  "bitLength n = (if n \<le> 0 then 0 else Suc (bitLength (n div 2)))"
  by pat_completeness auto
termination
  by (relation "measure nat") auto

declare bitLength.simps [simp del]

definition roundMagnitude :: "int \<Rightarrow> int" where
  "roundMagnitude m =
     (if m < 2 ^ 53 then m
      else
        let e = bitLength m - 53;
            q = m div 2 ^ e;
            r = m mod 2 ^ e;
            half = 2 ^ (e - 1);
            q' = (if half < r \<or> (r = half \<and> odd q) then q + 1 else q)
        in q' * 2 ^ e)"

definition toDouble :: "int \<Rightarrow> number" where
  "toDouble n =
     (let m = roundMagnitude \<bar>n\<bar>
      in if 2 ^ 1024 \<le> m then (if n < 0 then NegInfinity else PosInfinity)
         else Num (if n < 0 then - m else m))"

text \<open>
  The operators \<^verbatim>\<open>*\<close>, \<^verbatim>\<open>+\<close>, \<^verbatim>\<open>===\<close> and \<^verbatim>\<open><\<close> on numbers, and \<^verbatim>\<open>Number.isNaN\<close>.
  The exact product and the exact sum of two integers are integers, so the result of
  the double operation is the rounding of the exact result.
\<close>

fun Number_times :: "number \<Rightarrow> number \<Rightarrow> number" where
  "Number_times NaN y = NaN"
| "Number_times x NaN = NaN"
| "Number_times (Num a) (Num b) = toDouble (a * b)"
| "Number_times (Num a) PosInfinity =
     (if a = 0 then NaN else if 0 < a then PosInfinity else NegInfinity)"
| "Number_times (Num a) NegInfinity =
     (if a = 0 then NaN else if 0 < a then NegInfinity else PosInfinity)"
| "Number_times PosInfinity (Num b) =
     (if b = 0 then NaN else if 0 < b then PosInfinity else NegInfinity)"
| "Number_times NegInfinity (Num b) =
     (if b = 0 then NaN else if 0 < b then NegInfinity else PosInfinity)"
| "Number_times PosInfinity PosInfinity = PosInfinity"
| "Number_times PosInfinity NegInfinity = NegInfinity"
| "Number_times NegInfinity PosInfinity = NegInfinity"
| "Number_times NegInfinity NegInfinity = PosInfinity"

fun Number_plus :: "number \<Rightarrow> number \<Rightarrow> number" where
  "Number_plus NaN y = NaN"
| "Number_plus x NaN = NaN"
| "Number_plus (Num a) (Num b) = toDouble (a + b)"
| "Number_plus (Num a) PosInfinity = PosInfinity"
| "Number_plus (Num a) NegInfinity = NegInfinity"
| "Number_plus PosInfinity (Num b) = PosInfinity"
| "Number_plus NegInfinity (Num b) = NegInfinity"
| "Number_plus PosInfinity PosInfinity = PosInfinity"
| "Number_plus PosInfinity NegInfinity = NaN"
| "Number_plus NegInfinity PosInfinity = NaN"
| "Number_plus NegInfinity NegInfinity = NegInfinity"

fun Number_strictEquals :: "number \<Rightarrow> number \<Rightarrow> bool" where
  "Number_strictEquals (Num a) (Num b) = (a = b)"
| "Number_strictEquals PosInfinity PosInfinity = True"
| "Number_strictEquals NegInfinity NegInfinity = True"
| "Number_strictEquals x y = False"

fun Number_lessThan :: "number \<Rightarrow> number \<Rightarrow> bool" where
  "Number_lessThan (Num a) (Num b) = (a < b)"
| "Number_lessThan (Num a) PosInfinity = True"
| "Number_lessThan NegInfinity (Num b) = True"
| "Number_lessThan NegInfinity PosInfinity = True"
| "Number_lessThan x y = False"

fun Number_isNaN :: "number \<Rightarrow> bool" where
  "Number_isNaN NaN = True"
| "Number_isNaN x = False"

text \<open>
  White space as \<^verbatim>\<open>String.prototype.trim\<close> and \<^verbatim>\<open>parseInt\<close> understand it
  (WhiteSpace and LineTerminator), restricted to code units below 256:
  TAB, LF, VT, FF, CR, SPACE and NO-BREAK SPACE.
\<close>

definition isWhiteSpace :: "char \<Rightarrow> bool" where
  "isWhiteSpace c = ((of_char c :: nat) \<in> {9, 10, 11, 12, 13, 32, 160})"

definition String_trim :: "string \<Rightarrow> string" where
  "String_trim s = rev (dropWhile isWhiteSpace (rev (dropWhile isWhiteSpace s)))"

text \<open>
  \<^verbatim>\<open>toLowerCase\<close> on one code unit below 256: the letters A to Z and the Latin-1
  capitals U+00C0 to U+00DE (without the multiplication sign U+00D7) move up by 32.
\<close>

definition Char_toLowerCase :: "char \<Rightarrow> char" where
  "Char_toLowerCase c =
     (let n = (of_char c :: nat)
      in if (65 \<le> n \<and> n \<le> 90) \<or> (192 \<le> n \<and> n \<le> 222 \<and> n \<noteq> 215)
         then char_of (n + 32) else c)"

definition String_toLowerCase :: "string \<Rightarrow> string" where
  "String_toLowerCase s = map Char_toLowerCase s"

definition isDigit :: "char \<Rightarrow> bool" where
  "isDigit c = (48 \<le> (of_char c :: nat) \<and> (of_char c :: nat) \<le> 57)"

text \<open>The character class \<^verbatim>\<open>[0-9\-\.]\<close> of the regular expression \<^verbatim>\<open>acceptedRange\<close>.\<close>

definition acceptedRange :: "char \<Rightarrow> bool" where
  "acceptedRange c = (isDigit c \<or> c = CHR ''-'' \<or> c = CHR ''.'')"

text \<open>
  \<^verbatim>\<open>s.replace(/[0-9\-\.]+/g, '')\<close>: every maximal run of accepted characters is
  replaced by the empty string, which leaves the other characters in their order.
\<close>

definition replace_acceptedRange :: "string \<Rightarrow> string" where
  "replace_acceptedRange s = filter (\<lambda>c. \<not> acceptedRange c) s"

text \<open>\<^verbatim>\<open>s.replace(/-/gi, '.')\<close>: every hyphen becomes a period.\<close>

definition replace_hyphens :: "string \<Rightarrow> string" where
  "replace_hyphens s = map (\<lambda>c. if c = CHR ''-'' then CHR ''.'' else c) s"

text \<open>
  \<^verbatim>\<open>s.split(sep)\<close> for a separator of one character. The result is never empty:
  the empty string splits into one empty segment.
\<close>

fun String_split :: "char \<Rightarrow> string \<Rightarrow> string list" where
  "String_split sep [] = [[]]"
| "String_split sep (c # cs) =
     (if c = sep then [] # String_split sep cs
      else (c # hd (String_split sep cs)) # tl (String_split sep cs))"

text \<open>
  \<^verbatim>\<open>Number.parseInt(s, 10)\<close>: leading white space is skipped, one sign is read,
  then the longest prefix of decimal digits; without a digit the result is \<^verbatim>\<open>NaN\<close>,
  otherwise it is the double nearest to the signed decimal value of the digits.
  (ECMAScript lets an implementation replace the digits after the twentieth by zeros
  before rounding; the model rounds the exact value, as V8 does.)
\<close>

definition digitValue :: "char \<Rightarrow> int" where
  "digitValue c = int (of_char c) - 48"

definition digitsValue :: "string \<Rightarrow> int" where
  "digitsValue ds = foldl (\<lambda>acc c. acc * 10 + digitValue c) 0 ds"

definition Number_parseInt :: "string \<Rightarrow> number" where
  "Number_parseInt s =
     (let s1 = dropWhile isWhiteSpace s;
          sign = (case s1 of c # _ \<Rightarrow> if c = CHR ''-'' then - 1 else 1 | [] \<Rightarrow> 1);
          s2 = (case s1 of c # r \<Rightarrow> if c = CHR ''-'' \<or> c = CHR ''+'' then r else s1 | [] \<Rightarrow> s1);
          ds = takeWhile isDigit s2
      in if ds = [] then NaN else toDouble (sign * digitsValue ds))"

subsection \<open>\<^verbatim>\<open>MapUtils\<close>\<close>

text \<open>
  A JavaScript \<^verbatim>\<open>Map\<close> is the list of its entries in insertion order, with pairwise
  different keys. \<^verbatim>\<open>Map.prototype.set\<close> overwrites the value of a key that is present,
  in place, and appends an entry for a new key.
\<close>

type_synonym ('k, 'v) jsmap = "('k \<times> 'v) list"

fun Map_set :: "('k, 'v) jsmap \<Rightarrow> 'k \<Rightarrow> 'v \<Rightarrow> ('k, 'v) jsmap" where
  "Map_set [] k v = [(k, v)]"
| "Map_set ((k', v') # m) k v =
     (if k' = k then (k, v) # m else (k', v') # Map_set m k v)"

text \<open>
  \<^verbatim>\<open>MapUtils.filter\<close>: the argument may be \<^verbatim>\<open>null\<close> or \<^verbatim>\<open>undefined\<close> (\<open>None\<close>);
  the loop runs over the entries of the argument and fills a fresh map.
\<close>

definition MapUtils_filter ::
  "('k, 'v) jsmap option \<Rightarrow> ('k \<Rightarrow> 'v \<Rightarrow> bool) \<Rightarrow> ('k, 'v) jsmap" where
  "MapUtils_filter amap predicate =
     (case amap of
        None \<Rightarrow> []
      | Some m \<Rightarrow>
          fold (\<lambda>(key, value) aMap.
                  if predicate key value = True then Map_set aMap key value else aMap)
               m [])"

subsection \<open>\<^verbatim>\<open>CommandLineUtils\<close>\<close>

definition IOS_FLAG :: string where
  "IOS_FLAG = ''ios''"

definition ANDROID_FLAG :: string where
  "ANDROID_FLAG = ''android''"

text \<open>
  The platform flag is a string or absent (\<open>None\<close> for \<^verbatim>\<open>undefined\<close>);
  \<^verbatim>\<open>if (input)\<close> holds for a string that is present and not empty.
\<close>

fun platformFlagIsIOS :: "string option \<Rightarrow> bool" where
  "platformFlagIsIOS None = False"
| "platformFlagIsIOS (Some input) =
     (if input \<noteq> [] then String_toLowerCase input = IOS_FLAG else False)"

fun platformFlagIsAndroid :: "string option \<Rightarrow> bool" where
  "platformFlagIsAndroid None = False"
| "platformFlagIsAndroid (Some input) =
     (if input \<noteq> [] then String_toLowerCase input = ANDROID_FLAG else False)"

definition platformFlagIsValid :: "string option \<Rightarrow> bool" where
  "platformFlagIsValid platformFlag =
     (platformFlagIsIOS platformFlag \<or> platformFlagIsAndroid platformFlag)"

text \<open>
  \<^verbatim>\<open>resolveFlag\<close> takes a flag of type \<^verbatim>\<open>any\<close>: the values of JavaScript that the
  model covers are \<^verbatim>\<open>undefined\<close>, \<^verbatim>\<open>null\<close>, booleans, numbers, strings and arrays.
  The TypeScript cast \<^verbatim>\<open>flag as string\<close> does nothing at run time.
\<close>

datatype jsvalue =
    JUndefined
  | JNull
  | JBoolean bool
  | JNumber number
  | JString string
  | JArray "jsvalue list"

text \<open>\<^verbatim>\<open>ToBoolean\<close>: what \<^verbatim>\<open>&&\<close> and \<^verbatim>\<open>if\<close> test.\<close>

fun truthy :: "jsvalue \<Rightarrow> bool" where
  "truthy JUndefined = False"
| "truthy JNull = False"
| "truthy (JBoolean b) = b"
| "truthy (JNumber NaN) = False"
| "truthy (JNumber (Num n)) = (n \<noteq> 0)"
| "truthy (JNumber PosInfinity) = True"
| "truthy (JNumber NegInfinity) = True"
| "truthy (JString s) = (s \<noteq> [])"
| "truthy (JArray xs) = True"

text \<open>
  The property access \<^verbatim>\<open>v.length\<close>: a \<^verbatim>\<open>TypeError\<close> on \<^verbatim>\<open>undefined\<close> and
  \<^verbatim>\<open>null\<close>, \<^verbatim>\<open>undefined\<close> on a boolean or a number.
\<close>

fun get_length :: "jsvalue \<Rightarrow> error + jsvalue" where
  "get_length JUndefined = Inl TypeError"
| "get_length JNull = Inl TypeError"
| "get_length (JBoolean b) = Inr JUndefined"
| "get_length (JNumber n) = Inr JUndefined"
| "get_length (JString s) = Inr (JNumber (Num (int (length s))))"
| "get_length (JArray xs) = Inr (JNumber (Num (int (length xs))))"

text \<open>
  \<^verbatim>\<open>v > 0\<close> for the values a \<^verbatim>\<open>length\<close> can have: \<^verbatim>\<open>undefined\<close> converts to
  \<^verbatim>\<open>NaN\<close>, and a comparison with \<^verbatim>\<open>NaN\<close> is false.
\<close>

fun greater_zero :: "jsvalue \<Rightarrow> bool" where
  "greater_zero (JNumber (Num n)) = (n > 0)"
| "greater_zero (JNumber PosInfinity) = True"
| "greater_zero _ = False"

definition resolveFlag :: "jsvalue \<Rightarrow> string \<Rightarrow> error + jsvalue" where
  "resolveFlag flag defaultValue =
     (let resolvedFlag = flag
      in if truthy resolvedFlag
         then (case get_length resolvedFlag of
                 Inl e \<Rightarrow> Inl e
               | Inr len \<Rightarrow>
                   if greater_zero len then Inr resolvedFlag
                   else Inr (JString defaultValue))
         else Inr (JString defaultValue))"

subsection \<open>\<^verbatim>\<open>Version\<close>\<close>

record Version =
  major :: number
  minor :: number
  patch :: number

text \<open>The error of \<^verbatim>\<open>Version.from\<close>: its message ends with the input as it was given.\<close>

definition invalidVersion :: "string \<Rightarrow> error" where
  "invalidVersion input = Error (''Invalid version string: '' @ input)"

definition Version_from :: "string \<Rightarrow> error + Version" where
  "Version_from input =
     (let original = String_toLowerCase (String_trim input);
          invalidChars = replace_acceptedRange original
      in if length invalidChars > 0 then Inl (invalidVersion input)
         else
           let parts = String_split (CHR ''.'') (replace_hyphens original);
               major = (if length parts \<ge> 1 then Number_parseInt (parts ! 0) else Num 0);
               minor = (if length parts \<ge> 2 then Number_parseInt (parts ! 1) else Num 0);
               patch = (if length parts \<ge> 3 then Number_parseInt (parts ! 2) else Num 0)
           in if Number_isNaN major \<or> Number_isNaN minor \<or> Number_isNaN patch
              then Inl (invalidVersion input)
              else Inr \<lparr>major = major, minor = minor, patch = patch\<rparr>)"

text \<open>
  \<^verbatim>\<open>compare\<close> computes the two scalars with the double operations and compares them
  with \<^verbatim>\<open>===\<close> and \<^verbatim>\<open><\<close>; both are false when a scalar is \<^verbatim>\<open>NaN\<close>, which leaves the
  last branch.
\<close>

definition Version_compare :: "Version \<Rightarrow> Version \<Rightarrow> int" where
  "Version_compare this another =
     (let v1 = Number_plus (Number_plus (Number_times (major this) (Num 100))
                                        (Number_times (minor this) (Num 10)))
                           (patch this);
          v2 = Number_plus (Number_plus (Number_times (major another) (Num 100))
                                        (Number_times (minor another) (Num 10)))
                           (patch another)
      in if Number_strictEquals v1 v2 then 0
         else if Number_lessThan v1 v2 then - 1
         else 1)"

definition Version_same :: "Version \<Rightarrow> Version \<Rightarrow> bool" where
  "Version_same this inputVersion = (Version_compare this inputVersion = 0)"

definition Version_sameOrNewer :: "Version \<Rightarrow> Version \<Rightarrow> bool" where
  "Version_sameOrNewer this inputVersion = (Version_compare this inputVersion > - 1)"

subsection \<open>The coercion to a string that the specification of \<^verbatim>\<open>resolveFlag\<close> speaks of\<close>

text \<open>
  The source of \<^verbatim>\<open>resolveFlag\<close> has no coercion. \<open>spec_coerceToString\<close> follows the
  words of the specification (``flag coerced to string''): it is the conversion
  \<^verbatim>\<open>String(v)\<close> of JavaScript on the values of the model (an integer in decimal
  notation, which is what JavaScript prints below \<open>10 ^ 21\<close>), and serves only to
  state what the specification asks for.
\<close>

fun decimalDigits :: "nat \<Rightarrow> string" where
  "decimalDigits n =
     (if n < 10 then [char_of (48 + n)]
      else decimalDigits (n div 10) @ [char_of (48 + n mod 10)])"

declare decimalDigits.simps [simp del]

text \<open>\<^verbatim>\<open>xs.join(sep)\<close> on an array of strings.\<close>

fun Array_join :: "string \<Rightarrow> string list \<Rightarrow> string" where
  "Array_join sep [] = []"
| "Array_join sep [s] = s"
| "Array_join sep (s # t # ss) = s @ sep @ Array_join sep (t # ss)"

fun spec_coerceToString :: "jsvalue \<Rightarrow> string" where
  "spec_coerceToString JUndefined = ''undefined''"
| "spec_coerceToString JNull = ''null''"
| "spec_coerceToString (JBoolean b) = (if b then ''true'' else ''false'')"
| "spec_coerceToString (JNumber NaN) = ''NaN''"
| "spec_coerceToString (JNumber (Num n)) =
     (if n < 0 then ''-'' @ decimalDigits (nat (- n)) else decimalDigits (nat n))"
| "spec_coerceToString (JNumber PosInfinity) = ''Infinity''"
| "spec_coerceToString (JNumber NegInfinity) = ''-Infinity''"
| "spec_coerceToString (JString s) = s"
| "spec_coerceToString (JArray xs) =
     Array_join '','' (map (\<lambda>x. if x = JUndefined \<or> x = JNull then [] else spec_coerceToString x) xs)"

subsection \<open>Auxiliary functions of the proofs about \<^verbatim>\<open>Version\<close>\<close>

text \<open>
  \<open>segment parts i\<close> is the number that \<^verbatim>\<open>Version.from\<close> computes for its field number
  \<open>i\<close>, that is \<^verbatim>\<open>parts.length >= i + 1 ? Number.parseInt(parts[i], 10) : 0\<close>;
  \<open>fromParts\<close> is the part of \<^verbatim>\<open>Version.from\<close> after the split; \<open>scalar v\<close> is the
  value that \<^verbatim>\<open>compare\<close> computes for a version (its \<^verbatim>\<open>v1\<close> and \<^verbatim>\<open>v2\<close>);
  \<open>nonNegative x\<close> says that a number is \<^verbatim>\<open>Infinity\<close> or an integer that is not negative.
  They are used to state and structure the proofs: \<open>Version_from\<close> and
  \<open>Version_compare\<close> above do not refer to them.
\<close>

definition segment :: "string list \<Rightarrow> nat \<Rightarrow> number" where
  "segment parts i = (if i < length parts then Number_parseInt (parts ! i) else Num 0)"

definition fromParts :: "string \<Rightarrow> string list \<Rightarrow> error + Version" where
  "fromParts input parts =
     (if Number_isNaN (segment parts 0) \<or> Number_isNaN (segment parts 1) \<or>
         Number_isNaN (segment parts 2)
      then Inl (invalidVersion input)
      else Inr \<lparr>major = segment parts 0, minor = segment parts 1, patch = segment parts 2\<rparr>)"

definition scalar :: "Version \<Rightarrow> number" where
  "scalar v =
     Number_plus (Number_plus (Number_times (major v) (Num 100))
                              (Number_times (minor v) (Num 10)))
                 (patch v)"

fun nonNegative :: "number \<Rightarrow> bool" where
  "nonNegative (Num n) = (0 \<le> n)"
| "nonNegative PosInfinity = True"
| "nonNegative x = False"

section \<open>Properties\<close>

subsection \<open>Rounding to a double\<close>

lemma Number_isNaN_iff: "Number_isNaN x = (x = NaN)"
  by (cases x) simp_all

lemma toDouble_not_NaN: "toDouble n \<noteq> NaN"
  by (simp add: toDouble_def Let_def)

lemma roundMagnitude_exact: "m < 2 ^ 53 \<Longrightarrow> roundMagnitude m = m"
  by (simp add: roundMagnitude_def)

lemma toDouble_exact: "\<bar>n\<bar> < 2 ^ 53 \<Longrightarrow> toDouble n = Num n"
proof -
  assume small: "\<bar>n\<bar> < 2 ^ 53"
  then have rm: "roundMagnitude \<bar>n\<bar> = \<bar>n\<bar>" by (rule roundMagnitude_exact)
  have "(2::int) ^ 53 < 2 ^ 1024" by simp
  with small have "\<not> 2 ^ 1024 \<le> \<bar>n\<bar>" by linarith
  then show ?thesis unfolding toDouble_def Let_def rm by auto
qed

lemma roundMagnitude_nonneg: "0 \<le> m \<Longrightarrow> 0 \<le> roundMagnitude m"
  by (auto simp: roundMagnitude_def Let_def pos_imp_zdiv_nonneg_iff)

lemma toDouble_nonNegative: "0 \<le> n \<Longrightarrow> nonNegative (toDouble n)"
  using roundMagnitude_nonneg[of "\<bar>n\<bar>"] by (simp add: toDouble_def Let_def)

lemma bitLength_le: "m < 2 ^ k \<Longrightarrow> bitLength m \<le> k"
proof (induction k arbitrary: m)
  case 0
  then show ?case by (subst bitLength.simps) simp
next
  case (Suc k)
  show ?case
  proof (cases "m \<le> 0")
    case True
    then show ?thesis by (subst bitLength.simps) simp
  next
    case False
    from Suc.prems have "m div 2 < 2 ^ k" by simp
    then have "bitLength (m div 2) \<le> k" by (rule Suc.IH)
    with False show ?thesis by (subst bitLength.simps) simp
  qed
qed

lemma less_power_bitLength: "m < 2 ^ bitLength m"
proof (induction m rule: bitLength.induct)
  case (1 n)
  show ?case
  proof (cases "n \<le> 0")
    case True
    have "(0::int) < 2 ^ bitLength n" by simp
    with True show ?thesis by linarith
  next
    case False
    with 1 have "n div 2 < 2 ^ bitLength (n div 2)" by simp
    then have "n < 2 * 2 ^ bitLength (n div 2)" by linarith
    with False show ?thesis by (subst bitLength.simps) simp
  qed
qed

lemma int_div_less:
  fixes m d k :: int
  assumes "0 < d" and "m < k * d"
  shows "m div d < k"
proof -
  have "m div d * d + m mod d = m" by (rule div_mult_mod_eq)
  moreover have "0 \<le> m mod d" using assms(1) by simp
  ultimately have "m div d * d \<le> m" by linarith
  with assms(2) have "m div d * d < k * d" by linarith
  with assms(1) show ?thesis by (simp add: mult_less_cancel_right)
qed

lemma roundMagnitude_finite:
  assumes "0 \<le> m" and "m < (2 ^ 53 - 1) * 2 ^ 971"
  shows "roundMagnitude m < 2 ^ 1024"
proof (cases "m < 2 ^ 53")
  case True
  have "(2::int) ^ 53 < 2 ^ 1024" by simp
  with True show ?thesis by (simp add: roundMagnitude_exact)
next
  case False
  define e where "e = bitLength m - 53"
  define q where "q = m div 2 ^ e"
  define q' where "q' = (if 2 ^ (e - 1) < m mod 2 ^ e \<or> (m mod 2 ^ e = 2 ^ (e - 1) \<and> odd q)
      then q + 1 else q)"
  have rm: "roundMagnitude m = q' * 2 ^ e"
    using False by (simp add: roundMagnitude_def Let_def e_def q_def q'_def)
  have "(2::int) ^ 53 \<le> m" using False by simp
  also have "m < 2 ^ bitLength m" by (rule less_power_bitLength)
  finally have lt: "(2::int) ^ 53 < 2 ^ bitLength m" .
  have "53 < bitLength m"
    using lt power_strict_increasing_iff[of "2::int" 53 "bitLength m"] by simp
  then have L: "bitLength m = 53 + e" by (simp add: e_def)
  have "m < (2::int) ^ 1024"
  proof -
    have "((2::int) ^ 53 - 1) * 2 ^ 971 < 2 ^ 1024" by simp
    with assms(2) show ?thesis by linarith
  qed
  then have "bitLength m \<le> 1024" by (rule bitLength_le)
  with L have e: "e \<le> 971" by simp
  have "m < 2 ^ 53 * 2 ^ e"
    using less_power_bitLength[of m] by (simp add: L power_add)
  then have q53: "q < 2 ^ 53"
    unfolding q_def by (intro int_div_less) simp_all
  have q0: "0 \<le> q" unfolding q_def using assms(1) by (simp add: pos_imp_zdiv_nonneg_iff)
  have q'q: "q' \<le> q + 1" and q'0: "0 \<le> q'" using q0 by (auto simp: q'_def)
  show ?thesis
  proof (cases "e = 971")
    case True
    from assms(2) have "q < 2 ^ 53 - 1"
      unfolding q_def True by (intro int_div_less) simp_all
    with q'q have "q' \<le> 2 ^ 53 - 1" by linarith
    then have "q' * 2 ^ 971 \<le> (2 ^ 53 - 1) * 2 ^ 971"
      by (rule mult_right_mono) simp
    also have "\<dots> < 2 ^ 1024" by simp
    finally show ?thesis by (simp add: rm True)
  next
    case False
    with e have "e \<le> 970" by simp
    then have "(2::int) ^ e \<le> 2 ^ 970" by (intro power_increasing) simp_all
    moreover from q53 q'q have "q' \<le> 2 ^ 53" by linarith
    ultimately have "q' * 2 ^ e \<le> 2 ^ 53 * 2 ^ 970"
      using q'0 by (intro mult_mono) simp_all
    also have "\<dots> < 2 ^ 1024" by simp
    finally show ?thesis by (simp add: rm)
  qed
qed

lemma toDouble_finite:
  assumes "0 \<le> n" and "n < (2 ^ 53 - 1) * 2 ^ 971"
  shows "\<exists>k\<ge>0. toDouble n = Num k"
proof -
  have "roundMagnitude \<bar>n\<bar> < 2 ^ 1024"
    using assms by (intro roundMagnitude_finite) simp_all
  moreover have "0 \<le> roundMagnitude \<bar>n\<bar>" by (rule roundMagnitude_nonneg) simp
  ultimately show ?thesis using assms(1) by (simp add: toDouble_def Let_def)
qed

lemma power_le_bitLength: "0 < m \<Longrightarrow> 2 ^ (bitLength m - 1) \<le> m"
proof (induction m rule: bitLength.induct)
  case (1 n)
  show ?case
  proof (cases "n div 2 \<le> 0")
    case True
    then have "bitLength (n div 2) = 0" by (subst bitLength.simps) simp
    with 1(2) have "bitLength n = 1" by (subst bitLength.simps) simp
    with 1(2) show ?thesis by simp
  next
    case False
    then have pos: "0 < n div 2" by simp
    with 1 have ih: "2 ^ (bitLength (n div 2) - 1) \<le> n div 2" by simp
    from pos have "bitLength (n div 2) = Suc (bitLength (n div 2 div 2))"
      by (subst bitLength.simps) simp
    then have "(2::int) ^ bitLength (n div 2) = 2 * 2 ^ (bitLength (n div 2) - 1)" by simp
    with ih have "2 ^ bitLength (n div 2) \<le> 2 * (n div 2)" by linarith
    also have "\<dots> \<le> n" by linarith
    finally have "2 ^ bitLength (n div 2) \<le> n" .
    moreover from 1(2) have "bitLength n = Suc (bitLength (n div 2))"
      by (subst bitLength.simps) simp
    ultimately show ?thesis by simp
  qed
qed

lemma roundMagnitude_overflow:
  assumes "2 ^ 1024 \<le> m"
  shows "2 ^ 1024 \<le> roundMagnitude m"
proof -
  define e where "e = bitLength m - 53"
  define q where "q = m div 2 ^ e"
  define q' where "q' = (if 2 ^ (e - 1) < m mod 2 ^ e \<or> (m mod 2 ^ e = 2 ^ (e - 1) \<and> odd q)
      then q + 1 else q)"
  have "(2::int) ^ 53 \<le> 2 ^ 1024" by simp
  with assms have big: "\<not> m < 2 ^ 53" by linarith
  then have rm: "roundMagnitude m = q' * 2 ^ e"
    by (simp add: roundMagnitude_def Let_def e_def q_def q'_def)
  from assms have pos: "0 < m"
    by (meson less_le_trans zero_less_numeral zero_less_power)
  have "(2::int) ^ 1024 < 2 ^ bitLength m"
    using assms less_power_bitLength[of m] by linarith
  then have L: "1024 < bitLength m"
    using power_strict_increasing_iff[of "2::int" 1024 "bitLength m"] by simp
  then have Le: "bitLength m - 1 = 52 + e" by (simp add: e_def)
  have eq: "(2::int) ^ (bitLength m - 1) = 2 ^ 52 * 2 ^ e"
    unfolding Le by (rule power_add)
  have low: "(2::int) ^ 52 * 2 ^ e \<le> m"
    using power_le_bitLength[OF pos] unfolding eq .
  have "(2::int) ^ 52 * 2 ^ e div 2 ^ e \<le> m div 2 ^ e"
    using low by (intro zdiv_mono1) simp_all
  then have q52: "2 ^ 52 \<le> q" by (simp add: q_def)
  then have "2 ^ 52 \<le> q'" by (simp add: q'_def)
  then have up: "(2::int) ^ 52 * 2 ^ e \<le> q' * 2 ^ e" by (intro mult_right_mono) simp_all
  have "(2::int) ^ 1024 \<le> 2 ^ (52 + e)"
    using L by (intro power_increasing) (simp_all add: e_def)
  then have "(2::int) ^ 1024 \<le> 2 ^ 52 * 2 ^ e" unfolding power_add .
  from this up show ?thesis unfolding rm by (rule order_trans)
qed

lemma toDouble_overflow:
  "2 ^ 1024 \<le> n \<Longrightarrow> toDouble n = PosInfinity"
  "n \<le> - (2 ^ 1024) \<Longrightarrow> toDouble n = NegInfinity"
proof -
  assume a: "2 ^ 1024 \<le> n"
  have "(0::int) < 2 ^ 1024" by simp
  with a have "0 \<le> n" by linarith
  then have "\<bar>n\<bar> = n" by simp
  with roundMagnitude_overflow[of "\<bar>n\<bar>"] a \<open>0 \<le> n\<close>
  show "toDouble n = PosInfinity" by (simp add: toDouble_def Let_def)
next
  assume a: "n \<le> - (2 ^ 1024)"
  have "(0::int) < 2 ^ 1024" by simp
  with a have neg: "n < 0" by linarith
  with a have "2 ^ 1024 \<le> \<bar>n\<bar>" by simp
  with roundMagnitude_overflow[of "\<bar>n\<bar>"] neg
  show "toDouble n = NegInfinity" by (simp add: toDouble_def Let_def)
qed

subsection \<open>Characters, splitting and parsing\<close>

lemma char_hyphen_code: "(c = CHR ''-'') = ((of_char c :: nat) = 45)"
proof -
  have "(of_char (CHR ''-'') :: nat) = 45" by simp
  then show ?thesis by (metis of_char_eq_iff)
qed

lemma char_period_code: "(c = CHR ''.'') = ((of_char c :: nat) = 46)"
proof -
  have "(of_char (CHR ''.'') :: nat) = 46" by simp
  then show ?thesis by (metis of_char_eq_iff)
qed

lemma acceptedRange_code:
  "acceptedRange c = ((of_char c :: nat) \<in> {45, 46} \<union> {48..57})"
  unfolding acceptedRange_def isDigit_def char_hyphen_code char_period_code
  by auto

lemma acceptedRange_toLowerCase: "acceptedRange (Char_toLowerCase c) = acceptedRange c"
  by (auto simp: acceptedRange_code Char_toLowerCase_def Let_def)

lemma toLowerCase_accepted: "acceptedRange c \<Longrightarrow> Char_toLowerCase c = c"
  by (auto simp: acceptedRange_code Char_toLowerCase_def Let_def)

lemma String_toLowerCase_accepted:
  "\<forall>c\<in>set s. acceptedRange c \<Longrightarrow> String_toLowerCase s = s"
  by (simp add: String_toLowerCase_def toLowerCase_accepted map_idI)

lemma invalidChars_empty_iff:
  "(replace_acceptedRange (String_toLowerCase s) = []) = (\<forall>c\<in>set s. acceptedRange c)"
  by (simp add: replace_acceptedRange_def String_toLowerCase_def filter_empty_conv
      acceptedRange_toLowerCase)

lemma String_split_not_Nil: "String_split sep s \<noteq> []"
  by (induction s) auto

lemma String_split_chars:
  "\<forall>p\<in>set (String_split sep s). \<forall>x\<in>set p. x \<in> set s \<and> x \<noteq> sep"
proof (induction s)
  case Nil
  then show ?case by simp
next
  case (Cons c cs)
  obtain q qs where split: "String_split sep cs = q # qs"
    using String_split_not_Nil[of sep cs] by (cases "String_split sep cs") auto
  with Cons show ?case by auto
qed

lemma isDigit_not_space: "isDigit c \<Longrightarrow> \<not> isWhiteSpace c"
  by (auto simp: isDigit_def isWhiteSpace_def)

lemma isDigit_not_sign: "isDigit c \<Longrightarrow> c \<noteq> CHR ''-'' \<and> c \<noteq> CHR ''+''"
  by (auto simp: isDigit_def)

lemma digitsValue_foldl_nonneg:
  "0 \<le> acc \<Longrightarrow> \<forall>c\<in>set ds. isDigit c \<Longrightarrow>
     0 \<le> foldl (\<lambda>acc c. acc * 10 + digitValue c) acc ds"
proof (induction ds arbitrary: acc)
  case Nil
  then show ?case by simp
next
  case (Cons d ds)
  have "0 \<le> digitValue d"
    using Cons.prems(2) by (simp add: digitValue_def isDigit_def)
  with Cons.prems have "0 \<le> acc * 10 + digitValue d" by simp
  with Cons show ?case by simp
qed

lemma digitsValue_nonneg: "\<forall>c\<in>set ds. isDigit c \<Longrightarrow> 0 \<le> digitsValue ds"
  unfolding digitsValue_def by (rule digitsValue_foldl_nonneg) simp_all

lemma Number_parseInt_digits:
  assumes "\<forall>c\<in>set ds. isDigit c"
  shows "Number_parseInt ds = (if ds = [] then NaN else toDouble (digitsValue ds))"
proof (cases ds)
  case Nil
  then show ?thesis by (simp add: Number_parseInt_def)
next
  case (Cons d r)
  with assms have d: "isDigit d" by simp
  from assms Cons have r: "takeWhile isDigit r = r"
    by (simp add: takeWhile_eq_all_conv)
  show ?thesis
    using Cons d isDigit_not_sign[OF d] isDigit_not_space[OF d]
    by (simp add: Number_parseInt_def r)
qed

text \<open>
  Two checks of the built-ins against each other: joining the segments of a split with
  the separator gives the string back, and \<open>Number_parseInt\<close> reads the decimal
  digits of a natural number as the double nearest to that number.
\<close>

lemma String_split_join: "Array_join [sep] (String_split sep s) = s"
proof (induction s)
  case Nil
  then show ?case by simp
next
  case (Cons c cs)
  obtain q qs where split: "String_split sep cs = q # qs"
    using String_split_not_Nil[of sep cs] by (cases "String_split sep cs") auto
  with Cons show ?case by (cases qs) auto
qed

lemma decimalDigits_digits: "\<forall>c\<in>set (decimalDigits n). isDigit c"
proof (induction n rule: decimalDigits.induct)
  case (1 n)
  show ?case
  proof (cases "n < 10")
    case True
    then show ?thesis by (subst decimalDigits.simps) (simp add: isDigit_def)
  next
    case False
    have "n mod 10 < 10" by simp
    then have "isDigit (char_of (48 + n mod 10))" by (simp add: isDigit_def)
    with 1 False show ?thesis by (subst decimalDigits.simps) simp
  qed
qed

lemma decimalDigits_not_Nil: "decimalDigits n \<noteq> []"
  by (subst decimalDigits.simps) simp

lemma digitsValue_snoc: "digitsValue (ds @ [d]) = digitsValue ds * 10 + digitValue d"
  by (simp add: digitsValue_def)

lemma digitsValue_decimalDigits: "digitsValue (decimalDigits n) = int n"
proof (induction n rule: decimalDigits.induct)
  case (1 n)
  show ?case
  proof (cases "n < 10")
    case True
    then show ?thesis
      by (subst decimalDigits.simps) (simp add: digitsValue_def digitValue_def)
  next
    case False
    have "n mod 10 < 10" by simp
    then have "digitValue (char_of (48 + n mod 10)) = int (n mod 10)"
      by (simp add: digitValue_def)
    with 1 False have "digitsValue (decimalDigits n) = int (n div 10) * 10 + int (n mod 10)"
      by (subst decimalDigits.simps) (simp add: digitsValue_snoc)
    also have "\<dots> = int (n div 10 * 10 + n mod 10)"
      by (simp only: of_nat_add of_nat_mult of_nat_numeral)
    also have "n div 10 * 10 + n mod 10 = n" by (rule div_mult_mod_eq)
    finally show ?thesis .
  qed
qed

lemma Number_parseInt_decimalDigits: "Number_parseInt (decimalDigits n) = toDouble (int n)"
  using Number_parseInt_digits[OF decimalDigits_digits, of n]
  by (simp add: decimalDigits_not_Nil digitsValue_decimalDigits)

subsection \<open>The structure of \<^verbatim>\<open>Version.from\<close>\<close>

lemma segment_unfold:
  "segment parts 0 = (if length parts \<ge> 1 then Number_parseInt (parts ! 0) else Num 0)"
  "segment parts 1 = (if length parts \<ge> 2 then Number_parseInt (parts ! 1) else Num 0)"
  "segment parts 2 = (if length parts \<ge> 3 then Number_parseInt (parts ! 2) else Num 0)"
proof -
  show "segment parts 0 = (if length parts \<ge> 1 then Number_parseInt (parts ! 0) else Num 0)"
    by (cases parts) (simp_all add: segment_def)
  have "(1 < length parts) = (2 \<le> length parts)" by arith
  then show "segment parts 1 = (if length parts \<ge> 2 then Number_parseInt (parts ! 1) else Num 0)"
    by (simp add: segment_def)
  have "(2 < length parts) = (3 \<le> length parts)" by arith
  then show "segment parts 2 = (if length parts \<ge> 3 then Number_parseInt (parts ! 2) else Num 0)"
    by (simp add: segment_def)
qed

lemma Version_from_rejected:
  assumes "\<exists>c\<in>set (String_trim input). \<not> acceptedRange c"
  shows "Version_from input = Inl (invalidVersion input)"
proof -
  have "replace_acceptedRange (String_toLowerCase (String_trim input)) \<noteq> []"
    using assms by (simp add: invalidChars_empty_iff)
  then show ?thesis by (simp add: Version_from_def)
qed

lemma Version_from_accepted:
  assumes "\<forall>c\<in>set (String_trim input). acceptedRange c"
  shows "Version_from input =
    fromParts input (String_split (CHR ''.'') (replace_hyphens (String_trim input)))"
proof -
  have lc: "String_toLowerCase (String_trim input) = String_trim input"
    using assms by (rule String_toLowerCase_accepted)
  have nil: "replace_acceptedRange (String_trim input) = []"
    using assms invalidChars_empty_iff[of "String_trim input"] by (simp add: lc)
  show ?thesis
    unfolding Version_from_def fromParts_def segment_unfold Let_def lc nil by simp
qed

lemma segments_digits:
  assumes "\<forall>c\<in>set t. acceptedRange c"
  shows "\<forall>p\<in>set (String_split (CHR ''.'') (replace_hyphens t)). \<forall>c\<in>set p. isDigit c"
proof (intro ballI)
  fix p c
  assume p: "p \<in> set (String_split (CHR ''.'') (replace_hyphens t))" and c: "c \<in> set p"
  from String_split_chars p c
  have "c \<in> set (replace_hyphens t)" and ne: "c \<noteq> CHR ''.''" by blast+
  then obtain d where d: "d \<in> set t" and cd: "c = (if d = CHR ''-'' then CHR ''.'' else d)"
    by (auto simp: replace_hyphens_def)
  from d assms have "acceptedRange d" by simp
  with cd ne show "isDigit c"
    by (auto simp: acceptedRange_def split: if_splits)
qed

lemma nonNegative_iff: "nonNegative x = (x = PosInfinity \<or> (\<exists>n\<ge>0. x = Num n))"
  by (cases x) simp_all

lemma segment_cases:
  assumes "\<forall>p\<in>set parts. \<forall>c\<in>set p. isDigit c"
  shows "segment parts i = NaN \<or> nonNegative (segment parts i)"
proof (cases "i < length parts")
  case True
  then have "parts ! i \<in> set parts" by simp
  with assms have dig: "\<forall>c\<in>set (parts ! i). isDigit c" by blast
  show ?thesis
    using True Number_parseInt_digits[OF dig] toDouble_nonNegative[OF digitsValue_nonneg[OF dig]]
    by (simp add: segment_def)
next
  case False
  then show ?thesis by (simp add: segment_def)
qed

lemma segment_NaN_iff:
  "(segment parts i = NaN) = (i < length parts \<and> Number_parseInt (parts ! i) = NaN)"
  by (auto simp: segment_def)

lemma ex_less_3: "(\<exists>i<3. P i) = (P 0 \<or> P (Suc 0) \<or> P (2::nat))"
  by (auto simp: numeral_3_eq_3 numeral_2_eq_2 less_Suc_eq)

lemma fromParts_fail_iff:
  "(fromParts input parts = Inl (invalidVersion input)) =
     (\<exists>i<min 3 (length parts). Number_parseInt (parts ! i) = NaN)"
proof -
  have "(fromParts input parts = Inl (invalidVersion input)) =
      (segment parts 0 = NaN \<or> segment parts (Suc 0) = NaN \<or> segment parts 2 = NaN)"
    by (auto simp: fromParts_def Number_isNaN_iff)
  also have "\<dots> = (\<exists>i<3. segment parts i = NaN)"
    by (simp add: ex_less_3)
  also have "\<dots> = (\<exists>i<min 3 (length parts). Number_parseInt (parts ! i) = NaN)"
    by (auto simp: segment_NaN_iff)
  finally show ?thesis .
qed

lemma fromParts_total:
  "fromParts input parts = Inl (invalidVersion input) \<or> (\<exists>v. fromParts input parts = Inr v)"
  by (simp add: fromParts_def)

lemma fromParts_Inr:
  "(fromParts input parts = Inr v) =
     (segment parts 0 \<noteq> NaN \<and> segment parts 1 \<noteq> NaN \<and> segment parts 2 \<noteq> NaN \<and>
      major v = segment parts 0 \<and> minor v = segment parts 1 \<and> patch v = segment parts 2)"
  by (cases v) (auto simp: fromParts_def Number_isNaN_iff)

lemma String_trim_whitespace:
  "\<forall>c\<in>set s. isWhiteSpace c \<Longrightarrow> String_trim s = []"
proof -
  assume "\<forall>c\<in>set s. isWhiteSpace c"
  then have nil: "dropWhile isWhiteSpace s = []" by simp
  show ?thesis unfolding String_trim_def nil by simp
qed

text \<open>
  Claim C1. \<^verbatim>\<open>Version.from(input)\<close> throws the error whose message carries the input as
  given exactly when the trimmed input has a character that is no digit, period or
  hyphen, or when, after the hyphens are replaced by periods and the string is split at
  the periods, one of the first \<open>min 3 n\<close> of the \<open>n\<close> segments parses to \<open>NaN\<close>. In
  every other case a \<open>Version\<close> is returned. An input that is empty or consists of white
  space only is rejected.
\<close>

theorem Version_from_fails_iff:
  "((Version_from input = Inl (invalidVersion input)) =
      (let parts = String_split (CHR ''.'') (replace_hyphens (String_trim input))
       in (\<exists>c\<in>set (String_trim input). \<not> acceptedRange c) \<or>
          (\<exists>i<min 3 (length parts). Number_parseInt (parts ! i) = NaN))) \<and>
   (Version_from input \<noteq> Inl (invalidVersion input) \<longrightarrow> (\<exists>v. Version_from input = Inr v)) \<and>
   ((\<forall>c\<in>set input. isWhiteSpace c) \<longrightarrow> Version_from input = Inl (invalidVersion input)) \<and>
   invalidVersion input = Error (''Invalid version string: '' @ input)"
proof (intro conjI impI)
  show "invalidVersion input = Error (''Invalid version string: '' @ input)"
    by (rule invalidVersion_def)
next
  show "(Version_from input = Inl (invalidVersion input)) =
      (let parts = String_split (CHR ''.'') (replace_hyphens (String_trim input))
       in (\<exists>c\<in>set (String_trim input). \<not> acceptedRange c) \<or>
          (\<exists>i<min 3 (length parts). Number_parseInt (parts ! i) = NaN))"
  proof (cases "\<forall>c\<in>set (String_trim input). acceptedRange c")
    case True
    then show ?thesis
      by (simp add: Version_from_accepted fromParts_fail_iff Let_def)
  next
    case False
    then show ?thesis
      by (simp add: Version_from_rejected Let_def)
  qed
next
  assume "Version_from input \<noteq> Inl (invalidVersion input)"
  then show "\<exists>v. Version_from input = Inr v"
    using Version_from_rejected[of input] Version_from_accepted[of input]
      fromParts_total[of input] by metis
next
  assume "\<forall>c\<in>set input. isWhiteSpace c"
  then have "String_trim input = []" by (rule String_trim_whitespace)
  then show "Version_from input = Inl (invalidVersion input)"
    by (simp add: Version_from_accepted fromParts_def segment_def Number_parseInt_def
        replace_hyphens_def)
qed

theorem Version_from_fails_iff_witness:
  "Version_from ''  '' = Inl (Error ''Invalid version string:   '') \<and>
   Version_from ''13.0.'' = Inl (Error ''Invalid version string: 13.0.'') \<and>
   (\<exists>v. Version_from ''13.0.4'' = Inr v)"
proof -
  have ws: "\<forall>c\<in>set ''  ''. isWhiteSpace c" by (simp add: isWhiteSpace_def)
  have parts: "String_split (CHR ''.'') (replace_hyphens (String_trim ''13.0.'')) =
      [''13'', ''0'', []]" by code_simp
  have "Number_parseInt ([''13'', ''0'', []] ! 2) = NaN" by code_simp
  then have "\<exists>i<min 3 (length [''13'', ''0'', []]). Number_parseInt ([''13'', ''0'', []] ! i) = NaN"
    by (intro exI[of _ 2]) simp
  with Version_from_fails_iff[of "''13.0.''", unfolded Let_def parts]
  have tr: "Version_from ''13.0.'' = Inl (invalidVersion ''13.0.'')"
    by blast
  have ok: "Version_from ''13.0.4'' \<noteq> Inl (invalidVersion ''13.0.4'')" by code_simp
  from ws tr ok Version_from_fails_iff[of "''  ''"] Version_from_fails_iff[of "''13.0.4''"]
  show ?thesis by (simp add: invalidVersion_def)
qed

subsection \<open>The fields of a parsed version\<close>

lemma all_less_3: "(\<forall>i<3. P i) = (P 0 \<and> P (Suc 0) \<and> P (2::nat))"
  by (auto simp: numeral_3_eq_3 numeral_2_eq_2 less_Suc_eq)

lemma Version_from_Inr:
  assumes "Version_from input = Inr v"
  shows "\<forall>c\<in>set (String_trim input). acceptedRange c"
    and "fromParts input (String_split (CHR ''.'') (replace_hyphens (String_trim input))) = Inr v"
proof -
  show acc: "\<forall>c\<in>set (String_trim input). acceptedRange c"
    using assms Version_from_rejected[of input] by auto
  with assms show "fromParts input
      (String_split (CHR ''.'') (replace_hyphens (String_trim input))) = Inr v"
    by (simp add: Version_from_accepted)
qed

lemma segment_parsed:
  assumes dig: "\<forall>p\<in>set parts. \<forall>c\<in>set p. isDigit c"
    and i: "i < length parts" and nn: "segment parts i \<noteq> NaN"
  shows "parts ! i \<noteq> []"
    and "Number_parseInt (parts ! i) = toDouble (digitsValue (parts ! i))"
    and "0 \<le> digitsValue (parts ! i)"
proof -
  from i have "parts ! i \<in> set parts" by simp
  with dig have d: "\<forall>c\<in>set (parts ! i). isDigit c" by blast
  from nn i have "Number_parseInt (parts ! i) \<noteq> NaN" by (simp add: segment_def)
  with Number_parseInt_digits[OF d]
  show "parts ! i \<noteq> []"
    and "Number_parseInt (parts ! i) = toDouble (digitsValue (parts ! i))"
    by (auto split: if_splits)
  show "0 \<le> digitsValue (parts ! i)" by (rule digitsValue_nonneg[OF d])
qed

text \<open>
  Claim C2 says that a field is its segment parsed as a base-10 integer. The fields are
  doubles: the segment \<^verbatim>\<open>9007199254740993\<close> (that is \<open>2 ^ 53 + 1\<close>) gives the major
  field 9007199254740992.
\<close>

theorem Version_from_fields_counterexample:
  "String_split (CHR ''.'') (replace_hyphens (String_trim ''9007199254740993'')) =
     [''9007199254740993''] \<and>
   digitsValue ''9007199254740993'' = 9007199254740993 \<and>
   Version_from ''9007199254740993'' =
     Inr \<lparr>major = Num 9007199254740992, minor = Num 0, patch = Num 0\<rparr>"
  by code_simp

text \<open>
  Claim C2, amended. When \<^verbatim>\<open>Version.from\<close> succeeds, the first segment of the trimmed,
  normalised and split input, parsed by \<^verbatim>\<open>Number.parseInt\<close> with radix 10, is the major
  field, the second one (when there is one) the minor field and the third one (when
  there is one) the patch field; a field without a segment is 0. Each of these segments
  is a non-empty string of digits, and its parse is the double nearest to its decimal
  value: the value itself when that is below \<open>2 ^ 53\<close>. The three examples of the
  specification are evaluated.
\<close>

theorem Version_from_fields:
  "(Version_from input = Inr v \<longrightarrow>
      (let parts = String_split (CHR ''.'') (replace_hyphens (String_trim input))
       in Number_parseInt (parts ! 0) = major v \<and>
          (if 2 \<le> length parts then Number_parseInt (parts ! 1) = minor v
           else minor v = Num 0) \<and>
          (if 3 \<le> length parts then Number_parseInt (parts ! 2) = patch v
           else patch v = Num 0) \<and>
          (\<forall>i<min 3 (length parts).
             parts ! i \<noteq> [] \<and> (\<forall>c\<in>set (parts ! i). isDigit c) \<and>
             Number_parseInt (parts ! i) = toDouble (digitsValue (parts ! i)) \<and>
             (digitsValue (parts ! i) < 2 ^ 53 \<longrightarrow>
                Number_parseInt (parts ! i) = Num (digitsValue (parts ! i)))))) \<and>
   Version_from ''13.0.4'' = Inr \<lparr>major = Num 13, minor = Num 0, patch = Num 4\<rparr> \<and>
   Version_from ''13-0-4'' = Inr \<lparr>major = Num 13, minor = Num 0, patch = Num 4\<rparr> \<and>
   Version_from ''13'' = Inr \<lparr>major = Num 13, minor = Num 0, patch = Num 0\<rparr>"
proof (intro conjI impI)
  assume ok: "Version_from input = Inr v"
  let ?parts = "String_split (CHR ''.'') (replace_hyphens (String_trim input))"
  note acc = Version_from_Inr(1)[OF ok]
  have dig: "\<forall>p\<in>set ?parts. \<forall>c\<in>set p. isDigit c" by (rule segments_digits[OF acc])
  from Version_from_Inr(2)[OF ok]
  have nn: "segment ?parts 0 \<noteq> NaN" "segment ?parts (Suc 0) \<noteq> NaN" "segment ?parts 2 \<noteq> NaN"
    and seg: "major v = segment ?parts 0" "minor v = segment ?parts 1"
      "patch v = segment ?parts 2"
    by (simp_all add: fromParts_Inr)
  from nn have nn3: "\<forall>i<3. segment ?parts i \<noteq> NaN" by (simp add: all_less_3)
  have len: "1 \<le> length ?parts"
    using String_split_not_Nil[of "CHR ''.''" "replace_hyphens (String_trim input)"]
    by (cases ?parts) simp_all
  have fields: "Number_parseInt (?parts ! 0) = major v \<and>
          (if 2 \<le> length ?parts then Number_parseInt (?parts ! 1) = minor v
           else minor v = Num 0) \<and>
          (if 3 \<le> length ?parts then Number_parseInt (?parts ! 2) = patch v
           else patch v = Num 0)"
    using len seg unfolding segment_unfold by (simp split: if_splits)
  have each: "\<forall>i<min 3 (length ?parts).
             ?parts ! i \<noteq> [] \<and> (\<forall>c\<in>set (?parts ! i). isDigit c) \<and>
             Number_parseInt (?parts ! i) = toDouble (digitsValue (?parts ! i)) \<and>
             (digitsValue (?parts ! i) < 2 ^ 53 \<longrightarrow>
                Number_parseInt (?parts ! i) = Num (digitsValue (?parts ! i)))"
  proof (intro allI impI)
    fix i assume "i < min 3 (length ?parts)"
    then have i3: "i < 3" and il: "i < length ?parts" by simp_all
    from nn3 i3 have ni: "segment ?parts i \<noteq> NaN" by blast
    note sp = segment_parsed[OF dig il ni]
    from il have "?parts ! i \<in> set ?parts" by simp
    with dig have d: "\<forall>c\<in>set (?parts ! i). isDigit c" by blast
    have exact: "digitsValue (?parts ! i) < 2 ^ 53 \<longrightarrow>
        Number_parseInt (?parts ! i) = Num (digitsValue (?parts ! i))"
    proof
      assume "digitsValue (?parts ! i) < 2 ^ 53"
      with sp(3) have "\<bar>digitsValue (?parts ! i)\<bar> < 2 ^ 53" by simp
      then show "Number_parseInt (?parts ! i) = Num (digitsValue (?parts ! i))"
        unfolding sp(2) by (rule toDouble_exact)
    qed
    from sp(1) d sp(2) exact
    show "?parts ! i \<noteq> [] \<and> (\<forall>c\<in>set (?parts ! i). isDigit c) \<and>
             Number_parseInt (?parts ! i) = toDouble (digitsValue (?parts ! i)) \<and>
             (digitsValue (?parts ! i) < 2 ^ 53 \<longrightarrow>
                Number_parseInt (?parts ! i) = Num (digitsValue (?parts ! i)))"
      by blast
  qed
  from fields each
  show "let parts = ?parts
       in Number_parseInt (parts ! 0) = major v \<and>
          (if 2 \<le> length parts then Number_parseInt (parts ! 1) = minor v
           else minor v = Num 0) \<and>
          (if 3 \<le> length parts then Number_parseInt (parts ! 2) = patch v
           else patch v = Num 0) \<and>
          (\<forall>i<min 3 (length parts).
             parts ! i \<noteq> [] \<and> (\<forall>c\<in>set (parts ! i). isDigit c) \<and>
             Number_parseInt (parts ! i) = toDouble (digitsValue (parts ! i)) \<and>
             (digitsValue (parts ! i) < 2 ^ 53 \<longrightarrow>
                Number_parseInt (parts ! i) = Num (digitsValue (parts ! i))))"
    unfolding Let_def by blast
next
  show "Version_from ''13.0.4'' = Inr \<lparr>major = Num 13, minor = Num 0, patch = Num 4\<rparr>"
    by code_simp
  show "Version_from ''13-0-4'' = Inr \<lparr>major = Num 13, minor = Num 0, patch = Num 4\<rparr>"
    by code_simp
  show "Version_from ''13'' = Inr \<lparr>major = Num 13, minor = Num 0, patch = Num 0\<rparr>"
    by code_simp
qed

theorem Version_from_fields_witness:
  "Version_from ''7.8'' = Inr \<lparr>major = Num 7, minor = Num 8, patch = Num 0\<rparr> \<and>
   Number_parseInt ([''7'', ''8''] ! 0) = Num 7 \<and>
   Number_parseInt ([''7'', ''8''] ! 1) = Num 8 \<and>
   Number_parseInt ([''7'', ''8''] ! 1) = Num (digitsValue ([''7'', ''8''] ! 1))"
proof -
  have ok: "Version_from ''7.8'' = Inr \<lparr>major = Num 7, minor = Num 8, patch = Num 0\<rparr>"
    by code_simp
  have parts: "String_split (CHR ''.'') (replace_hyphens (String_trim ''7.8'')) = [''7'', ''8'']"
    by code_simp
  have small: "digitsValue ([''7'', ''8''] ! 1) < 2 ^ 53" by code_simp
  have i: "(1::nat) < min 3 (length [''7'', ''8''])" by simp
  note th = Version_from_fields[of "''7.8''" "\<lparr>major = Num 7, minor = Num 8, patch = Num 0\<rparr>",
      unfolded Let_def parts]
  from th ok have a: "Number_parseInt ([''7'', ''8''] ! 0) = Num 7" by simp
  from th ok have b: "Number_parseInt ([''7'', ''8''] ! 1) = Num 8" by simp
  from th ok have c: "\<forall>i<min 3 (length [''7'', ''8'']).
        [''7'', ''8''] ! i \<noteq> [] \<and> (\<forall>c\<in>set ([''7'', ''8''] ! i). isDigit c) \<and>
        Number_parseInt ([''7'', ''8''] ! i) = toDouble (digitsValue ([''7'', ''8''] ! i)) \<and>
        (digitsValue ([''7'', ''8''] ! i) < 2 ^ 53 \<longrightarrow>
           Number_parseInt ([''7'', ''8''] ! i) = Num (digitsValue ([''7'', ''8''] ! i)))"
    by blast
  from c i small
  have "Number_parseInt ([''7'', ''8''] ! 1) = Num (digitsValue ([''7'', ''8''] ! 1))"
    by blast
  with ok a b show ?thesis by blast
qed

lemma digitsValue_foldl_bound:
  "0 \<le> acc \<Longrightarrow> \<forall>c\<in>set ds. isDigit c \<Longrightarrow>
     foldl (\<lambda>acc c. acc * 10 + digitValue c) acc ds < (acc + 1) * 10 ^ length ds"
proof (induction ds arbitrary: acc)
  case Nil
  then show ?case by simp
next
  case (Cons d ds)
  have dv: "0 \<le> digitValue d" "digitValue d \<le> 9"
    using Cons.prems(2) by (simp_all add: digitValue_def isDigit_def)
  with Cons.prems have nonneg: "0 \<le> acc * 10 + digitValue d" by simp
  from Cons.prems(2) have rest: "\<forall>c\<in>set ds. isDigit c" by simp
  have "foldl (\<lambda>acc c. acc * 10 + digitValue c) (acc * 10 + digitValue d) ds
      < (acc * 10 + digitValue d + 1) * 10 ^ length ds"
    by (rule Cons.IH[OF nonneg rest])
  also have "\<dots> \<le> ((acc + 1) * 10) * 10 ^ length ds"
    using dv by (intro mult_right_mono) simp_all
  finally have lt: "foldl (\<lambda>acc c. acc * 10 + digitValue c) (acc * 10 + digitValue d) ds
      < ((acc + 1) * 10) * 10 ^ length ds" .
  then show ?case by (simp add: algebra_simps)
qed

lemma digitsValue_bound: "\<forall>c\<in>set ds. isDigit c \<Longrightarrow> digitsValue ds < 10 ^ length ds"
  using digitsValue_foldl_bound[of 0 ds] by (simp add: digitsValue_def)

lemma segment_finite:
  assumes dig: "\<forall>p\<in>set parts. \<forall>c\<in>set p. isDigit c"
    and nn: "segment parts i \<noteq> NaN"
    and short: "i < length parts \<longrightarrow> length (parts ! i) \<le> 308"
  shows "\<exists>k\<ge>0. segment parts i = Num k"
proof (cases "i < length parts")
  case True
  note sp = segment_parsed[OF dig True nn]
  from True have "parts ! i \<in> set parts" by simp
  with dig have d: "\<forall>c\<in>set (parts ! i). isDigit c" by blast
  have "digitsValue (parts ! i) < 10 ^ length (parts ! i)" by (rule digitsValue_bound[OF d])
  also have "(10::int) ^ length (parts ! i) \<le> 10 ^ 308"
    using short True by (intro power_increasing) simp_all
  also have "(10::int) ^ 308 < (2 ^ 53 - 1) * 2 ^ 971" by simp
  finally have "\<exists>k\<ge>0. toDouble (digitsValue (parts ! i)) = Num k"
    by (rule toDouble_finite[OF sp(3)])
  with True sp(2) show ?thesis by (simp add: segment_def)
next
  case False
  then show ?thesis by (simp add: segment_def)
qed

lemma String_split_no_separator: "sep \<notin> set s \<Longrightarrow> String_split sep s = [s]"
  by (induction s) auto

lemma digitsValue_foldl_nines:
  "foldl (\<lambda>acc c. acc * 10 + digitValue c) acc (replicate n (CHR ''9'')) = (acc + 1) * 10 ^ n - 1"
proof (induction n arbitrary: acc)
  case 0
  then show ?case by simp
next
  case (Suc n)
  have dv: "digitValue (CHR ''9'') = 9" by (simp add: digitValue_def)
  have "foldl (\<lambda>acc c. acc * 10 + digitValue c) acc (replicate (Suc n) (CHR ''9'')) =
      foldl (\<lambda>acc c. acc * 10 + digitValue c) (acc * 10 + 9) (replicate n (CHR ''9''))"
    by (simp add: dv)
  also have "\<dots> = (acc * 10 + 9 + 1) * 10 ^ n - 1" by (rule Suc.IH)
  also have "\<dots> = (acc + 1) * 10 ^ Suc n - 1" by (simp add: algebra_simps)
  finally show ?case .
qed

lemma digitsValue_nines: "digitsValue (replicate n (CHR ''9'')) = 10 ^ n - 1"
  using digitsValue_foldl_nines[of 0 n] by (simp add: digitsValue_def)

lemma dropWhile_hd: "xs \<noteq> [] \<Longrightarrow> \<not> P (hd xs) \<Longrightarrow> dropWhile P xs = xs"
  by (cases xs) simp_all

lemma Version_from_digits:
  assumes ne: "ds \<noteq> []" and dig: "\<forall>c\<in>set ds. isDigit c"
  shows "Version_from ds =
    Inr \<lparr>major = toDouble (digitsValue ds), minor = Num 0, patch = Num 0\<rparr>"
proof -
  from ne dig have h: "\<not> isWhiteSpace (hd ds)" and l: "\<not> isWhiteSpace (last ds)"
    by (simp_all add: isDigit_not_space)
  have d1: "dropWhile isWhiteSpace ds = ds"
    using ne h by (rule dropWhile_hd[of ds isWhiteSpace])
  have "rev ds \<noteq> []" "\<not> isWhiteSpace (hd (rev ds))" using ne l by (simp_all add: hd_rev)
  then have d2: "dropWhile isWhiteSpace (rev ds) = rev ds"
    by (rule dropWhile_hd[of "rev ds" isWhiteSpace])
  have trim: "String_trim ds = ds" unfolding String_trim_def d1 d2 by simp
  have acc: "\<forall>c\<in>set (String_trim ds). acceptedRange c"
    unfolding trim using dig by (simp add: acceptedRange_def)
  have nosep: "\<forall>c\<in>set ds. c \<noteq> CHR ''-'' \<and> c \<noteq> CHR ''.''"
  proof
    fix c assume "c \<in> set ds"
    with dig have "isDigit c" by blast
    then show "c \<noteq> CHR ''-'' \<and> c \<noteq> CHR ''.''" by (auto simp: isDigit_def)
  qed
  have hy: "replace_hyphens ds = ds"
    unfolding replace_hyphens_def using nosep by (intro map_idI) simp
  from nosep have dot: "CHR ''.'' \<notin> set ds" by blast
  have parts: "String_split (CHR ''.'') (replace_hyphens (String_trim ds)) = [ds]"
    unfolding trim hy by (rule String_split_no_separator[OF dot])
  have p: "Number_parseInt ds = toDouble (digitsValue ds)"
    using Number_parseInt_digits[OF dig] ne by simp
  have s0: "segment [ds] 0 = toDouble (digitsValue ds)" by (simp add: segment_def p)
  have s1: "segment [ds] 1 = Num 0" "segment [ds] 2 = Num 0" by (simp_all add: segment_def)
  show ?thesis
    unfolding Version_from_accepted[OF acc] parts fromParts_def s0 s1
    by (simp add: Number_isNaN_iff toDouble_not_NaN)
qed

text \<open>
  Claim C4 says that the fields of a parsed \<open>Version\<close> are integers. A segment whose
  value is beyond the range of the doubles parses to \<^verbatim>\<open>Infinity\<close>, which is not
  \<^verbatim>\<open>NaN\<close>, so \<^verbatim>\<open>Version.from\<close> returns it as a field: the input of 310 nines gives the
  major field \<^verbatim>\<open>Infinity\<close>.
\<close>

theorem Version_from_nonneg_counterexample:
  "Version_from (replicate 310 (CHR ''9'')) =
     Inr \<lparr>major = PosInfinity, minor = Num 0, patch = Num 0\<rparr>"
proof -
  have "(2::int) ^ 1024 \<le> 10 ^ 310 - 1" by simp
  then have inf: "toDouble (10 ^ 310 - 1) = PosInfinity" by (rule toDouble_overflow(1))
  have ne: "replicate 310 (CHR ''9'') \<noteq> []" by simp
  have dig: "\<forall>c\<in>set (replicate 310 (CHR ''9'')). isDigit c" by (simp add: isDigit_def)
  have "Version_from (replicate 310 (CHR ''9'')) =
      Inr \<lparr>major = toDouble (digitsValue (replicate 310 (CHR ''9''))),
          minor = Num 0, patch = Num 0\<rparr>"
    using ne dig by (rule Version_from_digits)
  then show ?thesis unfolding digitsValue_nines inf .
qed

text \<open>
  Claim C4, amended. Each field of a \<open>Version\<close> that \<^verbatim>\<open>Version.from\<close> returns is an
  integer that is not negative or is \<^verbatim>\<open>Infinity\<close> (a hyphen is always a separator, never
  a sign); when each of the first three segments has at most 308 digits, the three
  fields are integers that are not negative. (The fields are \<^verbatim>\<open>readonly\<close> and no method
  of the class assigns them; values of the model are immutable.)
\<close>

theorem Version_from_nonneg:
  "Version_from input = Inr v \<longrightarrow>
     (let parts = String_split (CHR ''.'') (replace_hyphens (String_trim input))
      in nonNegative (major v) \<and> nonNegative (minor v) \<and> nonNegative (patch v) \<and>
         ((\<forall>i<min 3 (length parts). length (parts ! i) \<le> 308) \<longrightarrow>
            (\<exists>a b c. 0 \<le> a \<and> 0 \<le> b \<and> 0 \<le> c \<and>
               v = \<lparr>major = Num a, minor = Num b, patch = Num c\<rparr>)))"
proof
  assume ok: "Version_from input = Inr v"
  let ?parts = "String_split (CHR ''.'') (replace_hyphens (String_trim input))"
  note acc = Version_from_Inr(1)[OF ok]
  have dig: "\<forall>p\<in>set ?parts. \<forall>c\<in>set p. isDigit c" by (rule segments_digits[OF acc])
  from Version_from_Inr(2)[OF ok]
  have nn: "segment ?parts 0 \<noteq> NaN" "segment ?parts 1 \<noteq> NaN" "segment ?parts 2 \<noteq> NaN"
    and seg: "major v = segment ?parts 0" "minor v = segment ?parts 1"
      "patch v = segment ?parts 2"
    by (simp_all add: fromParts_Inr)
  have nonneg: "nonNegative (major v) \<and> nonNegative (minor v) \<and> nonNegative (patch v)"
    using segment_cases[OF dig, of 0] segment_cases[OF dig, of 1] segment_cases[OF dig, of 2]
      nn seg by simp
  have fin: "(\<forall>i<min 3 (length ?parts). length (?parts ! i) \<le> 308) \<longrightarrow>
            (\<exists>a b c. 0 \<le> a \<and> 0 \<le> b \<and> 0 \<le> c \<and>
               v = \<lparr>major = Num a, minor = Num b, patch = Num c\<rparr>)"
  proof
    assume short: "\<forall>i<min 3 (length ?parts). length (?parts ! i) \<le> 308"
    then have s: "\<And>i. i < 3 \<Longrightarrow> i < length ?parts \<longrightarrow> length (?parts ! i) \<le> 308"
      by simp
    obtain a where a: "0 \<le> a" "segment ?parts 0 = Num a"
      using segment_finite[OF dig nn(1) s[of 0]] by auto
    obtain b where b: "0 \<le> b" "segment ?parts 1 = Num b"
      using segment_finite[OF dig nn(2) s[of 1]] by auto
    obtain c where c: "0 \<le> c" "segment ?parts 2 = Num c"
      using segment_finite[OF dig nn(3) s[of 2]] by auto
    from a b c seg have "v = \<lparr>major = Num a, minor = Num b, patch = Num c\<rparr>" by simp
    with a(1) b(1) c(1)
    show "\<exists>a b c. 0 \<le> a \<and> 0 \<le> b \<and> 0 \<le> c \<and>
               v = \<lparr>major = Num a, minor = Num b, patch = Num c\<rparr>"
      by blast
  qed
  from nonneg fin
  show "let parts = ?parts
      in nonNegative (major v) \<and> nonNegative (minor v) \<and> nonNegative (patch v) \<and>
         ((\<forall>i<min 3 (length parts). length (parts ! i) \<le> 308) \<longrightarrow>
            (\<exists>a b c. 0 \<le> a \<and> 0 \<le> b \<and> 0 \<le> c \<and>
               v = \<lparr>major = Num a, minor = Num b, patch = Num c\<rparr>))"
    unfolding Let_def by blast
qed

theorem Version_from_nonneg_witness:
  "Version_from ''13.0.4'' = Inr \<lparr>major = Num 13, minor = Num 0, patch = Num 4\<rparr> \<and>
   nonNegative (Num 13) \<and> nonNegative (Num 0) \<and> nonNegative (Num 4) \<and>
   (\<exists>a b c. 0 \<le> a \<and> 0 \<le> b \<and> 0 \<le> c \<and>
      \<lparr>major = Num 13, minor = Num 0, patch = Num 4\<rparr> =
      \<lparr>major = Num a, minor = Num b, patch = Num c\<rparr>)"
proof -
  have ok: "Version_from ''13.0.4'' = Inr \<lparr>major = Num 13, minor = Num 0, patch = Num 4\<rparr>"
    by code_simp
  have parts: "String_split (CHR ''.'') (replace_hyphens (String_trim ''13.0.4'')) =
      [''13'', ''0'', ''4'']" by code_simp
  have short: "\<forall>i<min 3 (length [''13'', ''0'', ''4'']). length ([''13'', ''0'', ''4''] ! i) \<le> 308"
  proof (intro allI impI)
    fix i :: nat
    assume "i < min 3 (length [''13'', ''0'', ''4''])"
    then have "i = 0 \<or> i = 1 \<or> i = 2" by auto
    then show "length ([''13'', ''0'', ''4''] ! i) \<le> 308" by auto
  qed
  note th = Version_from_nonneg[of "''13.0.4''"
      "\<lparr>major = Num 13, minor = Num 0, patch = Num 4\<rparr>", unfolded Let_def parts]
  from th ok have "nonNegative (major \<lparr>major = Num 13, minor = Num 0, patch = Num 4\<rparr>) \<and>
      nonNegative (minor \<lparr>major = Num 13, minor = Num 0, patch = Num 4\<rparr>) \<and>
      nonNegative (patch \<lparr>major = Num 13, minor = Num 0, patch = Num 4\<rparr>)"
    by blast
  then have n: "nonNegative (Num 13) \<and> nonNegative (Num 0) \<and> nonNegative (Num 4)"
    by (simp only: Version.simps)
  from th ok short
  have "\<exists>a b c. 0 \<le> a \<and> 0 \<le> b \<and> 0 \<le> c \<and>
      \<lparr>major = Num 13, minor = Num 0, patch = Num 4\<rparr> =
      \<lparr>major = Num a, minor = Num b, patch = Num c\<rparr>"
    by blast
  with ok n show ?thesis by blast
qed

subsection \<open>Separators and extra segments\<close>

lemma segment_take:
  assumes "take 3 parts = take 3 parts'" and "i < 3"
  shows "segment parts i = segment parts' i"
proof -
  have len: "min 3 (length parts) = min 3 (length parts')"
    using assms(1) by (metis length_take min.commute)
  have nth: "i < length parts \<Longrightarrow> i < length parts' \<Longrightarrow> parts ! i = parts' ! i"
    using assms by (metis nth_take)
  from len assms(2) have "(i < length parts) = (i < length parts')" by auto
  with nth show ?thesis by (auto simp: segment_def)
qed

lemma fromParts_take:
  assumes "take 3 parts = take 3 parts'"
  shows "(fromParts input parts = Inr v) = (fromParts input' parts' = Inr v)"
  using segment_take[OF assms, of 0] segment_take[OF assms, of 1] segment_take[OF assms, of 2]
  by (simp add: fromParts_Inr)

text \<open>
  Claim C5 says that the fourth and later segments have no influence on the success of
  \<^verbatim>\<open>Version.from\<close>. The test of the characters runs over the whole trimmed input,
  though: \<^verbatim>\<open>1.2.3.4\<close> and \<^verbatim>\<open>1.2.3.x\<close> have the same first three segments, the first
  one parses and the second one is rejected.
\<close>

theorem Version_from_extra_segments_counterexample:
  "take 3 (String_split (CHR ''.'') (replace_hyphens (String_trim ''1.2.3.4''))) =
   take 3 (String_split (CHR ''.'') (replace_hyphens (String_trim ''1.2.3.x''))) \<and>
   Version_from ''1.2.3.4'' = Inr \<lparr>major = Num 1, minor = Num 2, patch = Num 3\<rparr> \<and>
   Version_from ''1.2.3.x'' = Inl (Error ''Invalid version string: 1.2.3.x'')"
  by code_simp

text \<open>
  Claim C5, amended. For two inputs that both pass the test of the characters and whose
  first three segments agree, \<^verbatim>\<open>Version.from\<close> either returns the same \<open>Version\<close> or
  throws on both: the segments after the third are neither parsed nor used.
\<close>

theorem Version_from_extra_segments:
  assumes "\<forall>c\<in>set (String_trim s). acceptedRange c"
    and "\<forall>c\<in>set (String_trim s'). acceptedRange c"
    and "take 3 (String_split (CHR ''.'') (replace_hyphens (String_trim s))) =
         take 3 (String_split (CHR ''.'') (replace_hyphens (String_trim s')))"
  shows "(\<exists>v. Version_from s = Inr v \<and> Version_from s' = Inr v) \<or>
         (Version_from s = Inl (invalidVersion s) \<and> Version_from s' = Inl (invalidVersion s'))"
proof -
  let ?p = "String_split (CHR ''.'') (replace_hyphens (String_trim s))"
  let ?p' = "String_split (CHR ''.'') (replace_hyphens (String_trim s'))"
  have eq: "\<And>v. (fromParts s ?p = Inr v) = (fromParts s' ?p' = Inr v)"
    using assms(3) by (rule fromParts_take)
  show ?thesis
    using fromParts_total[of s ?p] fromParts_total[of s' ?p'] eq
    by (auto simp: Version_from_accepted[OF assms(1)] Version_from_accepted[OF assms(2)])
qed

theorem Version_from_extra_segments_witness:
  "\<exists>v. Version_from ''1.2.3.4'' = Inr v \<and> Version_from ''1-2-3-99-7'' = Inr v"
proof -
  have a: "\<forall>c\<in>set (String_trim ''1.2.3.4''). acceptedRange c" by code_simp
  have b: "\<forall>c\<in>set (String_trim ''1-2-3-99-7''). acceptedRange c" by code_simp
  have c: "take 3 (String_split (CHR ''.'') (replace_hyphens (String_trim ''1.2.3.4''))) =
         take 3 (String_split (CHR ''.'') (replace_hyphens (String_trim ''1-2-3-99-7'')))"
    by code_simp
  have d: "Version_from ''1.2.3.4'' \<noteq> Inl (invalidVersion ''1.2.3.4'')" by code_simp
  from Version_from_extra_segments[OF a b c] d show ?thesis by blast
qed

lemma replace_hyphens_space: "isWhiteSpace (if c = CHR ''-'' then CHR ''.'' else c) = isWhiteSpace c"
  by (auto simp: isWhiteSpace_def)

lemma String_trim_replace_hyphens:
  "String_trim (replace_hyphens s) = replace_hyphens (String_trim s)"
proof -
  have comp: "isWhiteSpace \<circ> (\<lambda>c. if c = CHR ''-'' then CHR ''.'' else c) = isWhiteSpace"
    by (rule ext) (simp add: replace_hyphens_space)
  show ?thesis
    by (simp add: String_trim_def replace_hyphens_def dropWhile_map rev_map comp)
qed

lemma replace_hyphens_idem: "replace_hyphens (replace_hyphens s) = replace_hyphens s"
  by (simp add: replace_hyphens_def)

lemma replace_hyphens_accepted:
  "(\<forall>c\<in>set (replace_hyphens s). acceptedRange c) = (\<forall>c\<in>set s. acceptedRange c)"
  by (auto simp: replace_hyphens_def acceptedRange_def)

text \<open>
  Claim C6. Hyphens and periods are interchangeable as separators: \<^verbatim>\<open>Version.from\<close>
  on an input and on the same input with every hyphen replaced by a period either
  returns the same \<open>Version\<close> on both or throws on both.
\<close>

theorem Version_from_separators:
  "(\<exists>v. Version_from s = Inr v \<and> Version_from (replace_hyphens s) = Inr v) \<or>
   (Version_from s = Inl (invalidVersion s) \<and>
    Version_from (replace_hyphens s) = Inl (invalidVersion (replace_hyphens s)))"
proof (cases "\<forall>c\<in>set (String_trim s). acceptedRange c")
  case True
  then have acc': "\<forall>c\<in>set (String_trim (replace_hyphens s)). acceptedRange c"
    by (simp add: String_trim_replace_hyphens replace_hyphens_accepted)
  let ?p = "String_split (CHR ''.'') (replace_hyphens (String_trim s))"
  have "Version_from (replace_hyphens s) = fromParts (replace_hyphens s) ?p"
    by (simp add: Version_from_accepted[OF acc'] String_trim_replace_hyphens
        replace_hyphens_idem)
  moreover have "Version_from s = fromParts s ?p"
    by (rule Version_from_accepted[OF True])
  moreover have "\<And>v. (fromParts s ?p = Inr v) = (fromParts (replace_hyphens s) ?p = Inr v)"
    by (rule fromParts_take) simp
  ultimately show ?thesis
    using fromParts_total[of s ?p] fromParts_total[of "replace_hyphens s" ?p] by auto
next
  case False
  then have "\<not> (\<forall>c\<in>set (String_trim (replace_hyphens s)). acceptedRange c)"
    by (simp add: String_trim_replace_hyphens replace_hyphens_accepted)
  with False show ?thesis
    by (simp add: Version_from_rejected)
qed

theorem Version_from_separators_witness:
  "Version_from ''13-0-4'' = Inr \<lparr>major = Num 13, minor = Num 0, patch = Num 4\<rparr> \<and>
   Version_from ''13.0.4'' = Inr \<lparr>major = Num 13, minor = Num 0, patch = Num 4\<rparr>"
proof -
  have a: "Version_from ''13-0-4'' = Inr \<lparr>major = Num 13, minor = Num 0, patch = Num 4\<rparr>" by code_simp
  have b: "replace_hyphens ''13-0-4'' = ''13.0.4''" by code_simp
  from Version_from_separators[of "''13-0-4''"] a b show ?thesis by simp
qed

subsection \<open>Comparison\<close>

lemma Version_compare_scalars:
  "Version_compare a b =
     (if Number_strictEquals (scalar a) (scalar b) then 0
      else if Number_lessThan (scalar a) (scalar b) then - 1 else 1)"
  by (simp add: Version_compare_def scalar_def Let_def)

lemma Number_strictEquals_sym: "Number_strictEquals x y = Number_strictEquals y x"
  by (cases x; cases y) auto

lemma Number_order:
  assumes "x \<noteq> NaN" and "y \<noteq> NaN"
  shows "Number_lessThan x y \<Longrightarrow> \<not> Number_lessThan y x \<and> \<not> Number_strictEquals x y"
    and "\<not> Number_strictEquals x y \<Longrightarrow> \<not> Number_lessThan x y \<Longrightarrow> Number_lessThan y x"
  using assms by (cases x; cases y; auto)+

lemma Number_lessThan_not_NaN: "Number_lessThan x y \<Longrightarrow> x \<noteq> NaN \<and> y \<noteq> NaN"
  by (cases x; cases y) auto

lemma scalar_exact:
  assumes "\<bar>x\<bar> < 2 ^ 45" and "\<bar>y\<bar> < 2 ^ 45" and "\<bar>z\<bar> < 2 ^ 45"
  shows "scalar \<lparr>major = Num x, minor = Num y, patch = Num z\<rparr> = Num (x * 100 + y * 10 + z)"
proof -
  have "\<bar>x * 100\<bar> = \<bar>x\<bar> * 100" and "\<bar>y * 10\<bar> = \<bar>y\<bar> * 10" by (simp_all add: abs_mult)
  with assms have bx: "\<bar>x * 100\<bar> < 2 ^ 53" and "\<bar>y * 10\<bar> < 2 ^ 53" by simp_all
  then have m: "toDouble (x * 100) = Num (x * 100)" "toDouble (y * 10) = Num (y * 10)"
    by (simp_all add: toDouble_exact)
  have "\<bar>x * 100 + y * 10\<bar> \<le> \<bar>x\<bar> * 100 + \<bar>y\<bar> * 10" by linarith
  with assms have "\<bar>x * 100 + y * 10\<bar> < 2 ^ 53" by simp
  then have s1: "toDouble (x * 100 + y * 10) = Num (x * 100 + y * 10)" by (rule toDouble_exact)
  have "\<bar>x * 100 + y * 10 + z\<bar> \<le> \<bar>x\<bar> * 100 + \<bar>y\<bar> * 10 + \<bar>z\<bar>" by linarith
  with assms have "\<bar>x * 100 + y * 10 + z\<bar> < 2 ^ 53" by simp
  then have s2: "toDouble (x * 100 + y * 10 + z) = Num (x * 100 + y * 10 + z)"
    by (rule toDouble_exact)
  show ?thesis by (simp add: scalar_def m s1 s2)
qed

lemma nonNegative_not_NaN: "nonNegative x \<Longrightarrow> x \<noteq> NaN"
  by (cases x) simp_all

lemma nonNegative_times:
  "nonNegative x \<Longrightarrow> 0 < k \<Longrightarrow> nonNegative (Number_times x (Num k))"
  by (cases x) (simp_all add: toDouble_nonNegative)

lemma nonNegative_plus:
  "nonNegative x \<Longrightarrow> nonNegative y \<Longrightarrow> nonNegative (Number_plus x y)"
  by (cases x; cases y) (simp_all add: toDouble_nonNegative)

lemma scalar_nonNegative:
  assumes "nonNegative (major v)" and "nonNegative (minor v)" and "nonNegative (patch v)"
  shows "nonNegative (scalar v)"
  unfolding scalar_def using assms
  by (intro nonNegative_plus nonNegative_times) simp_all

lemma toDouble_finite_abs:
  assumes "\<bar>n\<bar> < (2 ^ 53 - 1) * 2 ^ 971"
  shows "\<exists>k. toDouble n = Num k"
proof -
  have "roundMagnitude \<bar>n\<bar> < 2 ^ 1024"
    using assms by (intro roundMagnitude_finite) simp_all
  then show ?thesis by (simp add: toDouble_def Let_def)
qed

lemma Number_plus_Num_not_NaN: "x \<noteq> NaN \<Longrightarrow> Number_plus x (Num z) \<noteq> NaN"
  by (cases x) (simp_all add: toDouble_not_NaN)

lemma scalar_bounded_not_NaN:
  assumes "\<bar>x\<bar> \<le> 10 ^ 306" and "\<bar>y\<bar> \<le> 10 ^ 307"
  shows "scalar \<lparr>major = Num x, minor = Num y, patch = Num z\<rparr> \<noteq> NaN"
proof -
  have "\<bar>x * 100\<bar> = \<bar>x\<bar> * 100" and "\<bar>y * 10\<bar> = \<bar>y\<bar> * 10" by (simp_all add: abs_mult)
  with assms have "\<bar>x * 100\<bar> \<le> 10 ^ 308" and "\<bar>y * 10\<bar> \<le> 10 ^ 308" by simp_all
  moreover have "(10::int) ^ 308 < (2 ^ 53 - 1) * 2 ^ 971" by simp
  ultimately have "\<bar>x * 100\<bar> < (2 ^ 53 - 1) * 2 ^ 971" and "\<bar>y * 10\<bar> < (2 ^ 53 - 1) * 2 ^ 971"
    by linarith+
  then obtain k1 k2 where k: "toDouble (x * 100) = Num k1" "toDouble (y * 10) = Num k2"
    using toDouble_finite_abs by blast
  have "Number_plus (Num k1) (Num k2) \<noteq> NaN" by (simp add: toDouble_not_NaN)
  then show ?thesis
    by (simp add: scalar_def k Number_plus_Num_not_NaN)
qed

text \<open>
  Claim C3 says that \<^verbatim>\<open>compare\<close> is the three-way comparison of the scalars
  \<open>major * 100 + minor * 10 + patch\<close>. The code computes the scalars in doubles: the
  versions parsed from \<^verbatim>\<open>90071992547409.0.93\<close> and \<^verbatim>\<open>90071992547409.0.92\<close> have the
  exact scalars \<open>2 ^ 53 + 1\<close> and \<open>2 ^ 53\<close>, both are rounded to \<open>2 ^ 53\<close>, and the
  versions compare as equal.
\<close>

theorem Version_compare_scalar_counterexample:
  "Version_from ''90071992547409.0.93'' =
     Inr \<lparr>major = Num 90071992547409, minor = Num 0, patch = Num 93\<rparr> \<and>
   Version_from ''90071992547409.0.92'' =
     Inr \<lparr>major = Num 90071992547409, minor = Num 0, patch = Num 92\<rparr> \<and>
   (90071992547409 * 100 + 0 * 10 + 92 :: int) < 90071992547409 * 100 + 0 * 10 + 93 \<and>
   Version_compare \<lparr>major = Num 90071992547409, minor = Num 0, patch = Num 93\<rparr>
     \<lparr>major = Num 90071992547409, minor = Num 0, patch = Num 92\<rparr> = 0"
proof (intro conjI)
  show "Version_from ''90071992547409.0.93'' =
     Inr \<lparr>major = Num 90071992547409, minor = Num 0, patch = Num 93\<rparr>" by code_simp
  show "Version_from ''90071992547409.0.92'' =
     Inr \<lparr>major = Num 90071992547409, minor = Num 0, patch = Num 92\<rparr>" by code_simp
  show "(90071992547409 * 100 + 0 * 10 + 92 :: int) < 90071992547409 * 100 + 0 * 10 + 93"
    by simp
  show "Version_compare \<lparr>major = Num 90071992547409, minor = Num 0, patch = Num 93\<rparr>
     \<lparr>major = Num 90071992547409, minor = Num 0, patch = Num 92\<rparr> = 0" by code_simp
qed

text \<open>
  Claim C3, amended. \<^verbatim>\<open>a.compare(b)\<close> is the three-way comparison of the two scalars
  that JavaScript computes in doubles, \<open>scalar a\<close> and \<open>scalar b\<close>: \<open>0\<close> when they are
  equal, \<open>- 1\<close> when the receiver's is smaller, \<open>1\<close> otherwise, which includes a scalar
  that is \<^verbatim>\<open>NaN\<close>. When the six fields are integers below \<open>2 ^ 45\<close> in absolute value,
  the scalars are exactly \<open>major * 100 + minor * 10 + patch\<close> and \<^verbatim>\<open>compare\<close> is their
  three-way comparison. The versions parsed from \<^verbatim>\<open>1.10.0\<close> and \<^verbatim>\<open>2.0.0\<close> both have the
  scalar 200 and compare as equal.
\<close>

theorem Version_compare_scalar:
  "Version_compare a b =
     (if Number_strictEquals (scalar a) (scalar b) then 0
      else if Number_lessThan (scalar a) (scalar b) then - 1 else 1) \<and>
   scalar a =
     Number_plus (Number_plus (Number_times (major a) (Num 100))
                              (Number_times (minor a) (Num 10)))
                 (patch a) \<and>
   (scalar a = NaN \<or> scalar b = NaN \<longrightarrow> Version_compare a b = 1) \<and>
   (\<bar>x\<bar> < 2 ^ 45 \<and> \<bar>y\<bar> < 2 ^ 45 \<and> \<bar>z\<bar> < 2 ^ 45 \<and>
    \<bar>x'\<bar> < 2 ^ 45 \<and> \<bar>y'\<bar> < 2 ^ 45 \<and> \<bar>z'\<bar> < 2 ^ 45 \<longrightarrow>
      scalar \<lparr>major = Num x, minor = Num y, patch = Num z\<rparr> = Num (x * 100 + y * 10 + z) \<and>
      Version_compare \<lparr>major = Num x, minor = Num y, patch = Num z\<rparr>
          \<lparr>major = Num x', minor = Num y', patch = Num z'\<rparr> =
        (let v1 = x * 100 + y * 10 + z;
             v2 = x' * 100 + y' * 10 + z'
         in if v1 < v2 then - 1 else if v1 = v2 then 0 else 1)) \<and>
   Version_from ''1.10.0'' = Inr \<lparr>major = Num 1, minor = Num 10, patch = Num 0\<rparr> \<and>
   Version_from ''2.0.0'' = Inr \<lparr>major = Num 2, minor = Num 0, patch = Num 0\<rparr> \<and>
   scalar \<lparr>major = Num 1, minor = Num 10, patch = Num 0\<rparr> = Num 200 \<and>
   scalar \<lparr>major = Num 2, minor = Num 0, patch = Num 0\<rparr> = Num 200 \<and>
   Version_compare \<lparr>major = Num 1, minor = Num 10, patch = Num 0\<rparr>
     \<lparr>major = Num 2, minor = Num 0, patch = Num 0\<rparr> = 0"
proof (intro conjI impI)
  show "Version_compare a b =
     (if Number_strictEquals (scalar a) (scalar b) then 0
      else if Number_lessThan (scalar a) (scalar b) then - 1 else 1)"
    by (rule Version_compare_scalars)
  show "scalar a =
     Number_plus (Number_plus (Number_times (major a) (Num 100))
                              (Number_times (minor a) (Num 10)))
                 (patch a)"
    by (rule scalar_def)
next
  assume "scalar a = NaN \<or> scalar b = NaN"
  then have "\<not> Number_strictEquals (scalar a) (scalar b)"
    and "\<not> Number_lessThan (scalar a) (scalar b)"
    by (cases "scalar a"; cases "scalar b"; auto)+
  then show "Version_compare a b = 1" by (simp add: Version_compare_scalars)
next
  assume b: "\<bar>x\<bar> < 2 ^ 45 \<and> \<bar>y\<bar> < 2 ^ 45 \<and> \<bar>z\<bar> < 2 ^ 45 \<and>
    \<bar>x'\<bar> < 2 ^ 45 \<and> \<bar>y'\<bar> < 2 ^ 45 \<and> \<bar>z'\<bar> < 2 ^ 45"
  then show s: "scalar \<lparr>major = Num x, minor = Num y, patch = Num z\<rparr> =
      Num (x * 100 + y * 10 + z)"
    by (intro scalar_exact) simp_all
  from b have s': "scalar \<lparr>major = Num x', minor = Num y', patch = Num z'\<rparr> =
      Num (x' * 100 + y' * 10 + z')"
    by (intro scalar_exact) simp_all
  show "Version_compare \<lparr>major = Num x, minor = Num y, patch = Num z\<rparr>
          \<lparr>major = Num x', minor = Num y', patch = Num z'\<rparr> =
        (let v1 = x * 100 + y * 10 + z;
             v2 = x' * 100 + y' * 10 + z'
         in if v1 < v2 then - 1 else if v1 = v2 then 0 else 1)"
    unfolding Version_compare_scalars s s' Let_def by auto
next
  show "Version_from ''1.10.0'' = Inr \<lparr>major = Num 1, minor = Num 10, patch = Num 0\<rparr>"
    by code_simp
  show "Version_from ''2.0.0'' = Inr \<lparr>major = Num 2, minor = Num 0, patch = Num 0\<rparr>"
    by code_simp
  show "scalar \<lparr>major = Num 1, minor = Num 10, patch = Num 0\<rparr> = Num 200" by code_simp
  show "scalar \<lparr>major = Num 2, minor = Num 0, patch = Num 0\<rparr> = Num 200" by code_simp
  show "Version_compare \<lparr>major = Num 1, minor = Num 10, patch = Num 0\<rparr>
     \<lparr>major = Num 2, minor = Num 0, patch = Num 0\<rparr> = 0" by code_simp
qed

theorem Version_compare_scalar_witness:
  "Version_compare \<lparr>major = Num 1, minor = Num 9, patch = Num 9\<rparr>
     \<lparr>major = Num 2, minor = Num 0, patch = Num 0\<rparr> = - 1 \<and>
   Version_compare \<lparr>major = PosInfinity, minor = NegInfinity, patch = Num 0\<rparr>
     \<lparr>major = Num 2, minor = Num 0, patch = Num 0\<rparr> = 1"
proof -
  have bounds: "\<bar>1::int\<bar> < 2 ^ 45 \<and> \<bar>9::int\<bar> < 2 ^ 45 \<and> \<bar>9::int\<bar> < 2 ^ 45 \<and>
    \<bar>2::int\<bar> < 2 ^ 45 \<and> \<bar>0::int\<bar> < 2 ^ 45 \<and> \<bar>0::int\<bar> < 2 ^ 45" by simp
  have "Version_compare \<lparr>major = Num 1, minor = Num 9, patch = Num 9\<rparr>
      \<lparr>major = Num 2, minor = Num 0, patch = Num 0\<rparr> =
      (let v1 = 1 * 100 + 9 * 10 + 9; v2 = 2 * 100 + 0 * 10 + (0::int)
       in if v1 < v2 then - 1 else if v1 = v2 then 0 else 1)"
    using Version_compare_scalar[of a b 1 9 9 2 0 0] bounds by blast
  then have first: "Version_compare \<lparr>major = Num 1, minor = Num 9, patch = Num 9\<rparr>
      \<lparr>major = Num 2, minor = Num 0, patch = Num 0\<rparr> = - 1"
    by simp
  have nan: "scalar \<lparr>major = PosInfinity, minor = NegInfinity, patch = Num 0\<rparr> = NaN"
    by code_simp
  have "Version_compare \<lparr>major = PosInfinity, minor = NegInfinity, patch = Num 0\<rparr>
     \<lparr>major = Num 2, minor = Num 0, patch = Num 0\<rparr> = 1"
    using Version_compare_scalar[of
        "\<lparr>major = PosInfinity, minor = NegInfinity, patch = Num 0\<rparr>"
        "\<lparr>major = Num 2, minor = Num 0, patch = Num 0\<rparr>"] nan
    by blast
  with first show ?thesis by blast
qed

text \<open>
  Claim C10 says that \<^verbatim>\<open>a.compare(b)\<close> is the negation of \<^verbatim>\<open>b.compare(a)\<close> for arbitrary
  integer fields. The doubles \<open>2 ^ 1020\<close> and \<open>- (2 ^ 1021)\<close> are integers; as major and
  minor fields they give the products \<^verbatim>\<open>Infinity\<close> and \<^verbatim>\<open>-Infinity\<close>, whose sum, the
  scalar, is \<^verbatim>\<open>NaN\<close>; then both tests of \<^verbatim>\<open>compare\<close> are false, and \<^verbatim>\<open>compare\<close>
  against the version 0.0.0 returns 1 in both directions.
\<close>

theorem Version_compare_antisym_counterexample:
  "toDouble (2 ^ 1020) = Num (2 ^ 1020) \<and>
   toDouble (- (2 ^ 1021)) = Num (- (2 ^ 1021)) \<and>
   Version_compare \<lparr>major = Num (2 ^ 1020), minor = Num (- (2 ^ 1021)), patch = Num 0\<rparr>
     \<lparr>major = Num 0, minor = Num 0, patch = Num 0\<rparr> = 1 \<and>
   Version_compare \<lparr>major = Num 0, minor = Num 0, patch = Num 0\<rparr>
     \<lparr>major = Num (2 ^ 1020), minor = Num (- (2 ^ 1021)), patch = Num 0\<rparr> = 1"
proof -
  have r1: "toDouble (2 ^ 1020) = Num (2 ^ 1020)" by code_simp
  have r2: "toDouble (- (2 ^ 1021)) = Num (- (2 ^ 1021))" by code_simp
  have "(2::int) ^ 1024 \<le> 2 ^ 1020 * 100" by simp
  then have t1: "Number_times (Num (2 ^ 1020)) (Num 100) = PosInfinity"
    by (simp only: Number_times.simps toDouble_overflow(1))
  have "- (2 ^ 1021) * 10 \<le> - ((2::int) ^ 1024)" by simp
  then have t2: "Number_times (Num (- (2 ^ 1021))) (Num 10) = NegInfinity"
    by (simp only: Number_times.simps toDouble_overflow(2))
  have sa: "scalar \<lparr>major = Num (2 ^ 1020), minor = Num (- (2 ^ 1021)), patch = Num 0\<rparr> = NaN"
    unfolding scalar_def Version.simps t1 t2 by simp
  have sz: "scalar \<lparr>major = Num 0, minor = Num 0, patch = Num 0\<rparr> = Num 0"
    by (simp add: scalar_def toDouble_exact)
  have c1: "Version_compare \<lparr>major = Num (2 ^ 1020), minor = Num (- (2 ^ 1021)), patch = Num 0\<rparr>
     \<lparr>major = Num 0, minor = Num 0, patch = Num 0\<rparr> = 1"
    unfolding Version_compare_scalars sa sz by simp
  have c2: "Version_compare \<lparr>major = Num 0, minor = Num 0, patch = Num 0\<rparr>
     \<lparr>major = Num (2 ^ 1020), minor = Num (- (2 ^ 1021)), patch = Num 0\<rparr> = 1"
    unfolding Version_compare_scalars sa sz by simp
  from r1 r2 c1 c2 show ?thesis by (intro conjI)
qed

lemma threeway_antisym:
  "x \<noteq> NaN \<Longrightarrow> y \<noteq> NaN \<Longrightarrow>
     (if Number_strictEquals x y then 0 else if Number_lessThan x y then - 1 else (1::int)) =
     - (if Number_strictEquals y x then 0 else if Number_lessThan y x then - 1 else 1)"
  by (cases x; cases y) auto

lemma threeway_total:
  "- 1 < (if Number_strictEquals x y then 0 else if Number_lessThan x y then - 1 else (1::int)) \<or>
   - 1 < (if Number_strictEquals y x then 0 else if Number_lessThan y x then - 1 else (1::int))"
  by (cases x; cases y) auto

lemma Version_from_nonNegative:
  assumes ok: "Version_from input = Inr v"
  shows "nonNegative (major v) \<and> nonNegative (minor v) \<and> nonNegative (patch v)"
proof -
  let ?parts = "String_split (CHR ''.'') (replace_hyphens (String_trim input))"
  note acc = Version_from_Inr(1)[OF ok]
  have dig: "\<forall>p\<in>set ?parts. \<forall>c\<in>set p. isDigit c" by (rule segments_digits[OF acc])
  from Version_from_Inr(2)[OF ok]
  have nn: "segment ?parts 0 \<noteq> NaN" "segment ?parts 1 \<noteq> NaN" "segment ?parts 2 \<noteq> NaN"
    and seg: "major v = segment ?parts 0" "minor v = segment ?parts 1"
      "patch v = segment ?parts 2"
    by (simp_all add: fromParts_Inr)
  show ?thesis
    using segment_cases[OF dig, of 0] segment_cases[OF dig, of 1] segment_cases[OF dig, of 2]
      nn seg by simp
qed

text \<open>
  Claim C10, amended. When neither scalar is \<^verbatim>\<open>NaN\<close>, \<^verbatim>\<open>a.compare(b)\<close> is the negation
  of \<^verbatim>\<open>b.compare(a)\<close>. The scalar is not \<^verbatim>\<open>NaN\<close> for every \<open>Version\<close> that
  \<^verbatim>\<open>Version.from\<close> returns, and for integer fields with \<open>\<bar>major\<bar> \<le> 10 ^ 306\<close> and
  \<open>\<bar>minor\<bar> \<le> 10 ^ 307\<close>. For all versions \<^verbatim>\<open>same\<close> is symmetric, and of two versions
  one is the same as or newer than the other.
\<close>

theorem Version_compare_antisym:
  "(scalar a \<noteq> NaN \<and> scalar b \<noteq> NaN \<longrightarrow> Version_compare a b = - Version_compare b a) \<and>
   Version_same a b = Version_same b a \<and>
   (Version_sameOrNewer a b \<or> Version_sameOrNewer b a) \<and>
   (Version_from s = Inr a \<longrightarrow> scalar a \<noteq> NaN) \<and>
   (\<bar>x\<bar> \<le> 10 ^ 306 \<and> \<bar>y\<bar> \<le> 10 ^ 307 \<longrightarrow>
      scalar \<lparr>major = Num x, minor = Num y, patch = Num z\<rparr> \<noteq> NaN)"
proof (intro conjI impI)
  assume nn: "scalar a \<noteq> NaN \<and> scalar b \<noteq> NaN"
  then have na: "scalar a \<noteq> NaN" and nb: "scalar b \<noteq> NaN" by simp_all
  show "Version_compare a b = - Version_compare b a"
    unfolding Version_compare_scalars by (rule threeway_antisym[OF na nb])
next
  show "Version_same a b = Version_same b a"
    unfolding Version_same_def Version_compare_scalars
    using Number_strictEquals_sym[of "scalar a" "scalar b"]
      Number_strictEquals_sym[of "scalar b" "scalar a"] by simp
next
  show "Version_sameOrNewer a b \<or> Version_sameOrNewer b a"
    unfolding Version_sameOrNewer_def Version_compare_scalars
    by (rule threeway_total)
next
  assume ok: "Version_from s = Inr a"
  from Version_from_nonNegative[OF ok]
  have "nonNegative (scalar a)" by (intro scalar_nonNegative) simp_all
  then show "scalar a \<noteq> NaN" by (rule nonNegative_not_NaN)
next
  assume "\<bar>x\<bar> \<le> 10 ^ 306 \<and> \<bar>y\<bar> \<le> 10 ^ 307"
  then show "scalar \<lparr>major = Num x, minor = Num y, patch = Num z\<rparr> \<noteq> NaN"
    by (intro scalar_bounded_not_NaN) simp_all
qed

theorem Version_compare_antisym_witness:
  "scalar \<lparr>major = Num 1, minor = Num 2, patch = Num 3\<rparr> \<noteq> NaN \<and>
   scalar \<lparr>major = Num 1, minor = Num 2, patch = Num 4\<rparr> \<noteq> NaN \<and>
   Version_compare \<lparr>major = Num 1, minor = Num 2, patch = Num 3\<rparr>
       \<lparr>major = Num 1, minor = Num 2, patch = Num 4\<rparr> =
     - Version_compare \<lparr>major = Num 1, minor = Num 2, patch = Num 4\<rparr>
         \<lparr>major = Num 1, minor = Num 2, patch = Num 3\<rparr>"
proof -
  have bounds: "\<bar>1::int\<bar> \<le> 10 ^ 306 \<and> \<bar>2::int\<bar> \<le> 10 ^ 307" by simp
  have ok: "Version_from ''1.2.3'' = Inr \<lparr>major = Num 1, minor = Num 2, patch = Num 3\<rparr>"
    by code_simp
  have a: "scalar \<lparr>major = Num 1, minor = Num 2, patch = Num 3\<rparr> \<noteq> NaN"
    using Version_compare_antisym[where s = "''1.2.3''" and
        a = "\<lparr>major = Num 1, minor = Num 2, patch = Num 3\<rparr>"] ok
    by blast
  have b: "scalar \<lparr>major = Num 1, minor = Num 2, patch = Num 4\<rparr> \<noteq> NaN"
    using Version_compare_antisym[where x = 1 and y = 2 and z = 4] bounds by blast
  have "Version_compare \<lparr>major = Num 1, minor = Num 2, patch = Num 3\<rparr>
       \<lparr>major = Num 1, minor = Num 2, patch = Num 4\<rparr> =
     - Version_compare \<lparr>major = Num 1, minor = Num 2, patch = Num 4\<rparr>
         \<lparr>major = Num 1, minor = Num 2, patch = Num 3\<rparr>"
    using Version_compare_antisym[where
        a = "\<lparr>major = Num 1, minor = Num 2, patch = Num 3\<rparr>" and
        b = "\<lparr>major = Num 1, minor = Num 2, patch = Num 4\<rparr>"] a b
    by blast
  with a b show ?thesis by blast
qed

subsection \<open>Filtering and flags\<close>

lemma Map_set_fresh: "k \<notin> fst ` set m \<Longrightarrow> Map_set m k v = m @ [(k, v)]"
  by (induction m) auto

lemma filter_fold_append:
  assumes "distinct (map fst m)" and "fst ` set acc \<inter> fst ` set m = {}"
  shows "fold (\<lambda>(key, value) aMap. if predicate key value = True then Map_set aMap key value else aMap)
           m acc = acc @ filter (\<lambda>(k, v). predicate k v) m"
  using assms
proof (induction m arbitrary: acc)
  case Nil
  then show ?case by simp
next
  case (Cons e m)
  obtain k v where e: "e = (k, v)" by (cases e)
  from Cons.prems e have fresh: "k \<notin> fst ` set acc" and dm: "distinct (map fst m)"
    and km: "k \<notin> fst ` set m" and disj: "fst ` set acc \<inter> fst ` set m = {}"
    by auto
  show ?case
  proof (cases "predicate k v")
    case True
    have "fst ` set (acc @ [(k, v)]) \<inter> fst ` set m = {}"
      using km disj by auto
    from Cons.IH[OF dm this] True fresh e show ?thesis
      by (simp add: Map_set_fresh)
  next
    case False
    from Cons.IH[OF dm disj] False e show ?thesis by simp
  qed
qed

text \<open>
  Claim C7. For a map (its keys pairwise different) and a predicate,
  \<^verbatim>\<open>MapUtils.filter\<close> returns the entries of the map that satisfy the predicate, in the
  order of the map, and nothing else; the result is a map again. For \<^verbatim>\<open>null\<close> the
  result is the empty map. No path of the function throws, hence the result type
  without an error.
\<close>

theorem MapUtils_filter_entries:
  "(distinct (map fst m) \<longrightarrow>
      MapUtils_filter (Some m) p = filter (\<lambda>(k, v). p k v) m \<and>
      set (MapUtils_filter (Some m) p) = {(k, v). (k, v) \<in> set m \<and> p k v} \<and>
      distinct (map fst (MapUtils_filter (Some m) p))) \<and>
   MapUtils_filter None p = []"
proof (intro conjI impI)
  assume d: "distinct (map fst m)"
  have eq: "MapUtils_filter (Some m) p = filter (\<lambda>(k, v). p k v) m"
    using filter_fold_append[OF d, of "[]" p] by (simp add: MapUtils_filter_def)
  show "MapUtils_filter (Some m) p = filter (\<lambda>(k, v). p k v) m" by (rule eq)
  show "set (MapUtils_filter (Some m) p) = {(k, v). (k, v) \<in> set m \<and> p k v}"
    unfolding eq by auto
  show "distinct (map fst (MapUtils_filter (Some m) p))"
    unfolding eq using d by (simp add: distinct_map_filter)
next
  show "MapUtils_filter None p = []" by (simp add: MapUtils_filter_def)
qed

theorem MapUtils_filter_entries_witness:
  "MapUtils_filter (Some [(1::nat, ''a''), (2, ''b''), (3, ''c'')]) (\<lambda>k v. k \<noteq> 2) =
     [(1, ''a''), (3, ''c'')]"
proof -
  have d: "distinct (map fst [(1::nat, ''a''), (2, ''b''), (3, ''c'')])" by simp
  from MapUtils_filter_entries[of "[(1::nat, ''a''), (2, ''b''), (3, ''c'')]" "\<lambda>k v. k \<noteq> 2"] d
  show ?thesis by simp
qed

text \<open>
  Claim C8. \<^verbatim>\<open>platformFlagIsIOS\<close> holds exactly for an input that is present, not empty
  and whose lower-casing is the literal \<^verbatim>\<open>ios\<close>; it is false for the empty string and
  for an absent input. \<^verbatim>\<open>platformFlagIsValid\<close> holds exactly when one of
  \<^verbatim>\<open>platformFlagIsIOS\<close> and \<^verbatim>\<open>platformFlagIsAndroid\<close> does. No path of the functions
  throws, hence the result type without an error.
\<close>

theorem platformFlag_spec:
  "platformFlagIsIOS input = (\<exists>s. input = Some s \<and> s \<noteq> [] \<and> String_toLowerCase s = ''ios'') \<and>
   platformFlagIsValid input = (platformFlagIsIOS input \<or> platformFlagIsAndroid input) \<and>
   platformFlagIsIOS (Some []) = False \<and>
   platformFlagIsIOS None = False"
  by (cases input) (auto simp: platformFlagIsValid_def IOS_FLAG_def)

theorem platformFlag_spec_witness:
  "platformFlagIsIOS (Some ''IOS'') \<and> \<not> platformFlagIsIOS (Some ''Android'') \<and>
   platformFlagIsValid (Some ''android'') \<and> \<not> platformFlagIsValid (Some ''windows'')"
proof -
  have "String_toLowerCase ''IOS'' = ''ios''" by code_simp
  moreover have "String_toLowerCase ''Android'' = ''android''" by code_simp
  moreover have "platformFlagIsAndroid (Some ''android'')" by code_simp
  moreover have "\<not> platformFlagIsAndroid (Some ''windows'')" by code_simp
  moreover have "String_toLowerCase ''windows'' = ''windows''" by code_simp
  ultimately show ?thesis
    using platformFlag_spec[of "Some ''IOS''"] platformFlag_spec[of "Some ''Android''"]
      platformFlag_spec[of "Some ''android''"] platformFlag_spec[of "Some ''windows''"]
    by (simp add: IOS_FLAG_def ANDROID_FLAG_def)
qed

text \<open>
  Claim C9 says that \<^verbatim>\<open>resolveFlag\<close> returns the flag coerced to a string whenever
  that string is not empty, for a flag of any type. The function does not coerce: the
  boolean \<^verbatim>\<open>true\<close> and the number 5 have the non-empty strings \<^verbatim>\<open>true\<close> and \<^verbatim>\<open>5\<close>,
  and \<^verbatim>\<open>resolveFlag\<close> returns the default value for both.
\<close>

theorem resolveFlag_coercion_counterexample:
  "spec_coerceToString (JBoolean True) = ''true'' \<and>
   resolveFlag (JBoolean True) ''default'' = Inr (JString ''default'') \<and>
   spec_coerceToString (JNumber (Num 5)) = ''5'' \<and>
   resolveFlag (JNumber (Num 5)) ''default'' = Inr (JString ''default'')"
  by code_simp

text \<open>
  Claim C9, amended. For a flag that is a string, \<^verbatim>\<open>resolveFlag\<close> returns the flag
  itself when it is not empty and the default value when it is empty; for a flag that
  is \<^verbatim>\<open>undefined\<close>, \<^verbatim>\<open>null\<close>, a boolean or a number it returns the default value.
  It never throws, whatever the flag is. The two examples of the specification are
  evaluated.
\<close>

theorem resolveFlag_spec:
  "resolveFlag (JString s) defaultValue = Inr (JString (if s \<noteq> [] then s else defaultValue)) \<and>
   resolveFlag JUndefined defaultValue = Inr (JString defaultValue) \<and>
   resolveFlag JNull defaultValue = Inr (JString defaultValue) \<and>
   resolveFlag (JBoolean b) defaultValue = Inr (JString defaultValue) \<and>
   resolveFlag (JNumber n) defaultValue = Inr (JString defaultValue) \<and>
   (\<exists>r. resolveFlag flag defaultValue = Inr r) \<and>
   resolveFlag (JString []) ''default'' = Inr (JString ''default'') \<and>
   resolveFlag (JString ''custom'') ''default'' = Inr (JString ''custom'')"
proof -
  have "\<exists>r. resolveFlag flag defaultValue = Inr r"
    by (cases flag rule: truthy.cases) (simp_all add: resolveFlag_def Let_def)
  moreover have "resolveFlag (JNumber n) defaultValue = Inr (JString defaultValue)"
    by (cases n) (simp_all add: resolveFlag_def Let_def)
  ultimately show ?thesis
    by (simp add: resolveFlag_def Let_def)
qed

end
